theory Spec2Isabelle
  imports Main "HOL-Library.Sublist" "HOL-Library.Multiset"
begin

section \<open>gohfinder: hostnames of a CIDR block or an ASN\<close>

text \<open>
  The program (\<^verbatim>\<open>main.go\<close>) looks a list of CIDR blocks up on a lookup service, or
  first resolves a list of ASNs to CIDR blocks, gathers one index hostname \<open>\<rightarrow>\<close> set of IPs
  and prints it. This theory embeds its four functions (\<^verbatim>\<open>main\<close>, \<^verbatim>\<open>searchASN\<close>,
  \<^verbatim>\<open>searchCIDR\<close>, \<^verbatim>\<open>printResults\<close>) and proves properties of them.

  Strings are byte lists, as Go's are. What the program gets from outside (the HTTP
  library, the HTML query library, the regular expression library) is a parameter of the
  model, the record \<open>env\<close>; what it does to the outside (lines on standard output,
  requests sent) is recorded in the process state \<open>proc\<close>. A call of \<^verbatim>\<open>log.Fatalf\<close> or
  \<^verbatim>\<open>log.Fatal\<close> ends the process with status 1: the outcome \<open>Fatal\<close>.
\<close>

subsection \<open>The functions of Go's \<^verbatim>\<open>strings\<close> package that the program calls\<close>

text \<open>
  \<^verbatim>\<open>strings.Split(s, sep)\<close> cuts \<open>s\<close> at the occurrences of \<open>sep\<close>, found from the left
  and not overlapping; the result of splitting the empty string is one empty piece. The
  program only calls it with the separator \<^verbatim>\<open>","\<close>; an empty separator (for which Go
  splits after each UTF-8 sequence) is not modelled and leaves the string whole here.
  The result is never empty (lemma \<open>Split_not_Nil\<close>), so the last case below is never
  taken.
\<close>

function Split :: "string \<Rightarrow> string \<Rightarrow> string list" where
  "Split [] sep = [[]]"
| "Split (c # cs) sep =
     (if sep \<noteq> [] \<and> prefix sep (c # cs)
      then [] # Split (drop (length sep) (c # cs)) sep
      else (case Split cs sep of
              piece # pieces \<Rightarrow> (c # piece) # pieces
            | [] \<Rightarrow> [[c]]))"
  by pat_completeness auto
termination
  by (relation "measure (\<lambda>(s, sep). length s)") (auto simp: neq_Nil_conv)

text \<open>\<^verbatim>\<open>strings.Join(elems, sep)\<close>.\<close>

fun Join :: "string list \<Rightarrow> string \<Rightarrow> string" where
  "Join [] sep = []"
| "Join [x] sep = x"
| "Join (x # y # ys) sep = x @ sep @ Join (y # ys) sep"

text \<open>
  \<^verbatim>\<open>strings.Replace(s, old, new, n)\<close> replaces the first \<open>n\<close> occurrences of \<open>old\<close>, found
  from the left and not overlapping, and all of them when \<open>n < 0\<close>. The program calls it
  with \<open>n = -1\<close> and \<open>n = 1\<close> and with constant, non-empty \<open>old\<close>; an empty \<open>old\<close> (which Go
  matches before each UTF-8 sequence) is not modelled and leaves the string as it is here.
\<close>

function Replace :: "string \<Rightarrow> string \<Rightarrow> string \<Rightarrow> int \<Rightarrow> string" where
  "Replace [] old new n = []"
| "Replace (c # cs) old new n =
     (if n \<noteq> 0 \<and> old \<noteq> [] \<and> prefix old (c # cs)
      then new @ Replace (drop (length old) (c # cs)) old new (n - 1)
      else c # Replace cs old new n)"
  by pat_completeness auto
termination
  by (relation "measure (\<lambda>(s, old, new, n). length s)") (auto simp: neq_Nil_conv)

text \<open>\<^verbatim>\<open>strings.Contains(s, substr)\<close>.\<close>

fun Contains :: "string \<Rightarrow> string \<Rightarrow> bool" where
  "Contains [] substr = (substr = [])"
| "Contains (c # cs) substr = (prefix substr (c # cs) \<or> Contains cs substr)"

subsection \<open>The outside: requests, responses, documents\<close>

text \<open>
  A request as \<^verbatim>\<open>http.NewRequest("GET", url, nil)\<close> followed by
  \<^verbatim>\<open>req.Header.Set("User-Agent", ...)\<close> builds it, and the two fields of a response that
  the program reads.
\<close>

record request =
  Method :: string
  URL :: string
  UserAgent :: string

record response =
  StatusCode :: nat
  Body :: string

text \<open>
  A parsed page, as far as the program queries it.
  \<^item> \<open>prefix_rows\<close>: for each row that \<^verbatim>\<open>doc.Find("#table_prefixes4 tbody tr")\<close> selects, in
    document order, the text \<^verbatim>\<open>s.Find("td").First().Find("a").Text()\<close>.
  \<^item> \<open>dns_anchors\<close>: for each anchor that
    \<^verbatim>\<open>doc.Find("a[href^='https://www.robtex.com/dns-lookup/']")\<close> selects, in document
    order, its \<open>href\<close> and the \<open>href\<close> of the first anchor that
    \<^verbatim>\<open>s.Parent().Parent().Find("a[href^='https://www.robtex.com/ip-lookup/']")\<close> selects,
    \<open>None\<close> when it selects nothing.
\<close>

record document =
  prefix_rows :: "string list"
  dns_anchors :: "(string \<times> string option) list"

text \<open>
  The libraries the program calls, none of them part of this repository.
  \<^item> \<open>NewRequest url\<close>: \<open>Some err\<close> when \<^verbatim>\<open>http.NewRequest\<close> refuses the URL.
  \<^item> \<open>Do req\<close>: \<^verbatim>\<open>client.Do(req)\<close>; \<open>None\<close> is a transport error.
  \<^item> \<open>NewDocumentFromReader body\<close>: \<^verbatim>\<open>goquery.NewDocumentFromReader\<close>; \<open>None\<close> is its
    error.
  \<^item> \<open>TrimSpace\<close>: \<^verbatim>\<open>strings.TrimSpace\<close> (white space as Unicode defines it).
  \<^item> \<open>Compile pattern\<close>: \<^verbatim>\<open>regexp.Compile\<close>; \<open>Inl err\<close> is its error, \<open>Inr m\<close> a compiled
    expression with \<open>m s\<close> the value of \<^verbatim>\<open>re.MatchString(s)\<close>.
  The answer to a request is a function of the request: a URL is answered the same way
  each time it is fetched within one run.
\<close>

record env =
  NewRequest :: "string \<Rightarrow> string option"
  Do :: "request \<Rightarrow> response option"
  NewDocumentFromReader :: "string \<Rightarrow> document option"
  TrimSpace :: "string \<Rightarrow> string"
  Compile :: "string \<Rightarrow> string + (string \<Rightarrow> bool)"

text \<open>
  What the process has done so far: \<open>stdout\<close> has one entry for each call of
  \<^verbatim>\<open>fmt.Println\<close> or \<^verbatim>\<open>fmt.Printf\<close>, the text written without the newline that ends it;
  \<open>requests\<close> has the requests sent, in order.
\<close>

record proc =
  stdout :: "string list"
  requests :: "request list"

text \<open>
  A function either returns to its caller, or the process ends inside it: \<^verbatim>\<open>log.Fatalf\<close>
  and \<^verbatim>\<open>log.Fatal\<close> write the message to standard error and call \<^verbatim>\<open>os.Exit(1)\<close>.
\<close>

datatype 'a outcome = Return 'a proc | Fatal string proc

fun exit_status :: "'a outcome \<Rightarrow> nat" where
  "exit_status (Return x st) = 0"
| "exit_status (Fatal msg st) = 1"

fun final :: "'a outcome \<Rightarrow> proc" where
  "final (Return x st) = st"
| "final (Fatal msg st) = st"

subsection \<open>The index: a Go map of sets\<close>

text \<open>
  The program's \<^verbatim>\<open>map[string]map[string]struct{}\<close> is a list of pairs of a key and the
  list of the members of its set, and a \<^verbatim>\<open>range\<close> over a map visits the list in its
  order. Go leaves the order of a \<^verbatim>\<open>range\<close> over a map open. A map that a function is
  given is any list here, so any order; a map that the program builds is visited in the
  order in which its keys were added, which is one of the orders Go may take. The
  theorems below say which lines are printed and which members a set has, never in which
  order.
\<close>

type_synonym index = "(string \<times> string list) list"

text \<open>\<^verbatim>\<open>_, exists := m[k]\<close>\<close>

definition has_key :: "index \<Rightarrow> string \<Rightarrow> bool" where
  "has_key m k = (k \<in> set (map fst m))"

text \<open>\<^verbatim>\<open>m[k] = make(map[string]struct{})\<close>, which the program only runs when \<open>k\<close> is not a key.\<close>

definition make_entry :: "index \<Rightarrow> string \<Rightarrow> index" where
  "make_entry m k = m @ [(k, [])]"

text \<open>
  \<^verbatim>\<open>m[k][x] = struct{}{}\<close>: \<open>x\<close> joins the set of \<open>k\<close>. Go panics on this statement when \<open>k\<close> is
  not a key (the inner map is nil); each of the three places that run it has created the
  entry before (lemma \<open>has_key_ensure\<close> below), and the model leaves such a map as it is.
\<close>

definition set_member :: "index \<Rightarrow> string \<Rightarrow> string \<Rightarrow> index" where
  "set_member m k x =
     map (\<lambda>(k', s). if k' = k then (k', if x \<in> set s then s else s @ [x]) else (k', s)) m"

text \<open>\<^verbatim>\<open>if _, exists := m[k]; !exists { m[k] = make(map[string]struct{}) }\<close>\<close>

definition ensure :: "index \<Rightarrow> string \<Rightarrow> index" where
  "ensure m k = (if \<not> has_key m k then make_entry m k else m)"

text \<open>
  What an index holds: its keys, the members of the set of a key, and the mapping
  from a key to its set.
\<close>

definition hostnames :: "index \<Rightarrow> string set" where
  "hostnames m = set (map fst m)"

definition ips_of :: "index \<Rightarrow> string \<Rightarrow> string set" where
  "ips_of m k = \<Union> (set (map (\<lambda>(k', s). if k' = k then set s else {}) m))"

definition index_map :: "index \<Rightarrow> string \<Rightarrow> string set option" where
  "index_map m k = (if has_key m k then Some (ips_of m k) else None)"

subsection \<open>\<^verbatim>\<open>searchCIDR\<close>\<close>

definition robtexURL :: string where
  "robtexURL = ''https://www.robtex.com/cidr/''"

definition userAgent :: string where
  "userAgent = ''Mozilla/5.0 (Windows NT 10.0; Win64; x64) AppleWebKit/537.36 (KHTML, like Gecko) Chrome/110.0.0.0 Safari/537.36''"

definition GET :: "string \<Rightarrow> request" where
  "GET u = \<lparr>Method = ''GET'', URL = u, UserAgent = userAgent\<rparr>"

definition send :: "request \<Rightarrow> proc \<Rightarrow> proc" where
  "send req st = st\<lparr>requests := requests st @ [req]\<rparr>"

text \<open>
  The body of the \<^verbatim>\<open>Each\<close> callback (lines 190 to 197): the hostname is the anchor's
  \<open>href\<close> without the first \<^verbatim>\<open>https://www.robtex.com/dns-lookup/\<close>, the IP the \<open>href\<close> of the
  IP anchor found beside it (\<^verbatim>\<open>AttrOr("href", "")\<close>: empty when there is none) without the
  first \<^verbatim>\<open>https://www.robtex.com/ip-lookup/\<close>.
\<close>

definition each_anchor :: "index \<Rightarrow> string \<times> string option \<Rightarrow> index" where
  "each_anchor hs a =
     (let h = Replace (fst a) ''https://www.robtex.com/dns-lookup/'' [] 1;
          ip = Replace (case snd a of Some href \<Rightarrow> href | None \<Rightarrow> [])
                 ''https://www.robtex.com/ip-lookup/'' [] 1
      in set_member (ensure hs h) h ip)"

text \<open>
  \<^verbatim>\<open>searchCIDR\<close> returns nil on a failed lookup; a nil map has no entries, as the empty
  index.
\<close>

definition searchCIDR :: "env \<Rightarrow> string \<Rightarrow> proc \<Rightarrow> index outcome" where
  "searchCIDR e cidr st =
     (let uri = Replace cidr ''/'' ''-'' (- 1) in
      case NewRequest e (robtexURL @ uri) of
        Some err \<Rightarrow> Fatal (''Failed to create HTTP request: '' @ err) st
      | None \<Rightarrow>
          let st1 = send (GET (robtexURL @ uri)) st in
          (case Do e (GET (robtexURL @ uri)) of
             None \<Rightarrow> Return [] st1
           | Some resp \<Rightarrow>
               if StatusCode resp \<noteq> 200 then Return [] st1
               else (case NewDocumentFromReader e (Body resp) of
                       None \<Rightarrow> Return [] st1
                     | Some doc \<Rightarrow> Return (foldl each_anchor [] (dns_anchors doc)) st1)))"

subsection \<open>\<^verbatim>\<open>searchASN\<close>\<close>

definition bgpURL :: string where
  "bgpURL = ''https://bgp.he.net/''"

text \<open>The body of the \<^verbatim>\<open>Each\<close> callback (lines 131 to 140).\<close>

definition each_row :: "env \<Rightarrow> string list \<Rightarrow> string \<Rightarrow> string list" where
  "each_row e ranges cell =
     (let prefix' = TrimSpace e cell in if prefix' \<noteq> [] then ranges @ [prefix'] else ranges)"

text \<open>
  The loop over \<open>asnList\<close> (lines 98 to 146), with the variable \<open>ranges\<close> that it
  extends. Each \<^verbatim>\<open>continue\<close> goes on with the rest of the list; the last statement of the
  body prints every entry of \<open>ranges\<close>.
\<close>

fun asn_loop :: "env \<Rightarrow> string list \<Rightarrow> string list \<Rightarrow> proc \<Rightarrow> string list outcome" where
  "asn_loop e [] ranges st = Return ranges st"
| "asn_loop e (asn # rest) ranges st =
     (case NewRequest e (bgpURL @ asn) of
        Some err \<Rightarrow> Fatal (''Failed to create HTTP request: '' @ err) st
      | None \<Rightarrow>
          let st1 = send (GET (bgpURL @ asn)) st in
          (case Do e (GET (bgpURL @ asn)) of
             None \<Rightarrow> asn_loop e rest ranges st1
           | Some resp \<Rightarrow>
               if StatusCode resp \<noteq> 200 then asn_loop e rest ranges st1
               else (case NewDocumentFromReader e (Body resp) of
                       None \<Rightarrow> asn_loop e rest ranges st1
                     | Some doc \<Rightarrow>
                         let ranges1 = foldl (each_row e) ranges (prefix_rows doc) in
                         asn_loop e rest ranges1
                           (st1\<lparr>stdout := stdout st1 @ ranges1\<rparr>))))"

definition searchASN :: "env \<Rightarrow> string \<Rightarrow> proc \<Rightarrow> string list outcome" where
  "searchASN e asns st = asn_loop e (Split asns '','') [] st"

subsection \<open>\<^verbatim>\<open>printResults\<close>\<close>

text \<open>The three lines the function prints.\<close>

definition fqdn_line :: "string \<Rightarrow> string" where
  "fqdn_line hostname = hostname"

definition default_line :: "string \<Rightarrow> string list \<Rightarrow> string" where
  "default_line hostname ipList = hostname @ '': '' @ Join ipList '' ''"

definition hosts_line :: "string \<Rightarrow> string list \<Rightarrow> string" where
  "hosts_line ip hostnameList = ip @ '' '' @ Join hostnameList '' ''"

text \<open>
  The condition \<^verbatim>\<open>filter == "" || re.MatchString(hostname)\<close>. The variable \<open>re\<close> is nil
  when the filter is empty, and the condition does not reach it then.
\<close>

definition keeps :: "string \<Rightarrow> (string \<Rightarrow> bool) option \<Rightarrow> string \<Rightarrow> bool" where
  "keeps filter' re hostname =
     (filter' = [] \<or> (case re of Some m \<Rightarrow> m hostname | None \<Rightarrow> False))"

text \<open>The first loop of the hosts branch (lines 216 to 225) builds \<open>hostsResult\<close>.\<close>

definition invert_entry ::
  "string \<Rightarrow> (string \<Rightarrow> bool) option \<Rightarrow> index \<Rightarrow> string \<times> string list \<Rightarrow> index" where
  "invert_entry filter' re hostsResult entry =
     (if keeps filter' re (fst entry)
      then foldl (\<lambda>hr ip. set_member (ensure hr ip) ip (fst entry)) hostsResult (snd entry)
      else hostsResult)"

text \<open>The loops that copy the keys of a set into a slice (lines 229 to 231, 238 to 240).\<close>

definition keys_list :: "string list \<Rightarrow> string list" where
  "keys_list s = foldl (\<lambda>l x. l @ [x]) [] s"

text \<open>The body of the loop of the other branch (lines 236 to 246): no line or one.\<close>

definition entry_lines ::
  "bool \<Rightarrow> string \<Rightarrow> (string \<Rightarrow> bool) option \<Rightarrow> string \<times> string list \<Rightarrow> string list" where
  "entry_lines fqdn filter' re entry =
     (if keeps filter' re (fst entry)
      then (let ipList = keys_list (snd entry) in
            if fqdn then [fqdn_line (fst entry)] else [default_line (fst entry) ipList])
      else [])"

definition printResults ::
  "env \<Rightarrow> index \<Rightarrow> bool \<Rightarrow> bool \<Rightarrow> string \<Rightarrow> proc \<Rightarrow> unit outcome" where
  "printResults e results hosts fqdn filter' st =
     (case (if filter' \<noteq> [] then map_sum id Some (Compile e filter') else Inr None) of
        Inl err \<Rightarrow> Fatal (''Invalid regex pattern: '' @ err) st
      | Inr re \<Rightarrow>
          if hosts then
            (let hostsResult = foldl (invert_entry filter' re) [] results in
             Return () (st\<lparr>stdout := stdout st @
               map (\<lambda>(ip, hostnames). hosts_line ip (keys_list hostnames)) hostsResult\<rparr>))
          else
            Return () (st\<lparr>stdout := stdout st @
              concat (map (entry_lines fqdn filter' re) results)\<rparr>))"

subsection \<open>\<^verbatim>\<open>main\<close>\<close>

text \<open>The flags as \<^verbatim>\<open>c.String\<close> and \<^verbatim>\<open>c.Bool\<close> read them; a flag not given is empty or false.\<close>

record flags =
  cidr_flag :: string
  asn_flag :: string
  hosts_flag :: bool
  fqdn_flag :: bool
  filter_flag :: string

text \<open>
  The loop over the entries of one lookup's result (lines 49 to 56, and again lines 66 to
  73): the entry of \<open>k\<close> is created when it is missing, then every IP of \<open>v\<close> joins its set.
\<close>

definition merge_entry :: "index \<Rightarrow> string \<times> string list \<Rightarrow> index" where
  "merge_entry results kv =
     foldl (\<lambda>r ip. set_member r (fst kv) ip) (ensure results (fst kv)) (snd kv)"

definition merge_index :: "index \<Rightarrow> index \<Rightarrow> index" where
  "merge_index results res = foldl merge_entry results res"

text \<open>
  The loop over the CIDR blocks (lines 47 to 57, and again lines 64 to 74, there over the
  ranges of one ASN).
\<close>

fun cidr_loop :: "env \<Rightarrow> string list \<Rightarrow> index \<Rightarrow> proc \<Rightarrow> index outcome" where
  "cidr_loop e [] results st = Return results st"
| "cidr_loop e (cidr # rest) results st =
     (case searchCIDR e cidr st of
        Fatal msg st1 \<Rightarrow> Fatal msg st1
      | Return res st1 \<Rightarrow> cidr_loop e rest (merge_index results res) st1)"

text \<open>The loop over the ASNs (lines 62 to 75).\<close>

fun asns_loop :: "env \<Rightarrow> string list \<Rightarrow> index \<Rightarrow> proc \<Rightarrow> index outcome" where
  "asns_loop e [] results st = Return results st"
| "asns_loop e (asn # rest) results st =
     (case searchASN e asn st of
        Fatal msg st1 \<Rightarrow> Fatal msg st1
      | Return ranges st1 \<Rightarrow>
          (case cidr_loop e ranges results st1 of
             Fatal msg st2 \<Rightarrow> Fatal msg st2
           | Return results1 st2 \<Rightarrow> asns_loop e rest results1 st2))"

definition invalid_parameters :: string where
  "invalid_parameters = ''Invalid parameters. Please provide either -c or -a''"

text \<open>
  The \<open>Action\<close> of the command-line application (lines 43 to 81). It returns an error
  (\<open>Some\<close>) or nil (\<open>None\<close>).
\<close>

definition Action :: "env \<Rightarrow> flags \<Rightarrow> proc \<Rightarrow> string option outcome" where
  "Action e c st =
     (if cidr_flag c \<noteq> [] then
        (case cidr_loop e (Split (cidr_flag c) '','') [] st of
           Fatal msg st1 \<Rightarrow> Fatal msg st1
         | Return results st1 \<Rightarrow>
             (case printResults e results (hosts_flag c) (fqdn_flag c) (filter_flag c) st1 of
                Fatal msg st2 \<Rightarrow> Fatal msg st2
              | Return u st2 \<Rightarrow> Return None st2))
      else if asn_flag c \<noteq> [] then
        (case asns_loop e (Split (asn_flag c) '','') [] st of
           Fatal msg st1 \<Rightarrow> Fatal msg st1
         | Return results st1 \<Rightarrow>
             (case printResults e results (hosts_flag c) (fqdn_flag c) (filter_flag c) st1 of
                Fatal msg st2 \<Rightarrow> Fatal msg st2
              | Return u st2 \<Rightarrow> Return None st2))
      else Return (Some invalid_parameters) st)"

text \<open>
  \<^verbatim>\<open>main\<close> (lines 84 to 87): the flags reach the \<open>Action\<close> through the command-line
  library, which is outside the model; an error that the \<open>Action\<close> returns goes to
  \<^verbatim>\<open>log.Fatal\<close>.
\<close>

definition main :: "env \<Rightarrow> flags \<Rightarrow> proc \<Rightarrow> unit outcome" where
  "main e c st =
     (case Action e c st of
        Fatal msg st1 \<Rightarrow> Fatal msg st1
      | Return (Some err) st1 \<Rightarrow> Fatal err st1
      | Return None st1 \<Rightarrow> Return () st1)"

subsection \<open>The notions the properties are stated with\<close>

text \<open>
  None of the definitions of this subsection is code of the program; each says in the
  words of the specification what a property is about.

  The aggregation of a sequence of lookup results: \<open>results\<close> starts empty (line 46, line
  61) and the results are merged into it in turn. Lemma \<open>cidr_loop_fold\<close> below shows that
  this is what the loop over the CIDR blocks computes.
\<close>

definition aggregate :: "index list \<Rightarrow> index" where
  "aggregate parts = foldl merge_index [] parts"

text \<open>
  What the lookup of a CIDR block finds. The result of \<^verbatim>\<open>searchCIDR\<close> does not depend on what
  the process has printed or sent before (lemma \<open>searchCIDR_result\<close>).
\<close>

definition lookup_result :: "env \<Rightarrow> string \<Rightarrow> index" where
  "lookup_result e cidr =
     (case searchCIDR e cidr \<lparr>stdout = [], requests = []\<rparr> of
        Return res st \<Rightarrow> res
      | Fatal msg st \<Rightarrow> [])"

text \<open>
  A filter pattern compiles; a hostname passes the filter (no filter was given, or the
  compiled pattern matches it); the filtered index.
\<close>

definition compiles :: "env \<Rightarrow> string \<Rightarrow> bool" where
  "compiles e filter' = (case Compile e filter' of Inr m \<Rightarrow> True | Inl err \<Rightarrow> False)"

definition passes :: "env \<Rightarrow> string \<Rightarrow> string \<Rightarrow> bool" where
  "passes e filter' hostname =
     (filter' = [] \<or> (case Compile e filter' of Inr m \<Rightarrow> m hostname | Inl err \<Rightarrow> False))"

definition filtered :: "env \<Rightarrow> string \<Rightarrow> index \<Rightarrow> index" where
  "filtered e filter' results = [entry \<leftarrow> results. passes e filter' (fst entry)]"


text \<open>
  The prefixes discovered for an ASN: the texts of the rows of its page, trimmed, the
  empty ones left out; none when the lookup fails.
\<close>

definition discovered :: "env \<Rightarrow> string \<Rightarrow> string list" where
  "discovered e asn =
     (case Do e (GET (bgpURL @ asn)) of
        None \<Rightarrow> []
      | Some resp \<Rightarrow>
          if StatusCode resp \<noteq> 200 then []
          else (case NewDocumentFromReader e (Body resp) of
                  None \<Rightarrow> []
                | Some doc \<Rightarrow> [p \<leftarrow> map (TrimSpace e) (prefix_rows doc). p \<noteq> []]))"

text \<open>The lookup URL of a CIDR block: every \<^verbatim>\<open>/\<close> of the block replaced by \<^verbatim>\<open>-\<close>.\<close>

definition cidr_url :: "string \<Rightarrow> string" where
  "cidr_url cidr = robtexURL @ map (\<lambda>c. if c = CHR ''/'' then CHR ''-'' else c) cidr"

text \<open>
  A lookup fails without ending the process: a transport error, a status other than
  200 (so every status that is not a success), or a page that does not parse.
\<close>

definition lookup_fails :: "env \<Rightarrow> request \<Rightarrow> bool" where
  "lookup_fails e req =
     (case Do e req of
        None \<Rightarrow> True
      | Some resp \<Rightarrow> StatusCode resp \<noteq> 200 \<or> NewDocumentFromReader e (Body resp) = None)"

text \<open>
  Reading the default output back. The bytes on standard output are the printed texts,
  each followed by a newline. They are split into lines at the newlines; a line is cut
  at its first \<^verbatim>\<open>": "\<close> into the hostname and the rest (as \<^verbatim>\<open>strings.Cut\<close> does), and the
  rest is split at the spaces into the IPs. A line without \<^verbatim>\<open>": "\<close> is skipped.
\<close>

fun Cut :: "string \<Rightarrow> string \<Rightarrow> (string \<times> string) option" where
  "Cut [] sep = (if sep = [] then Some ([], []) else None)"
| "Cut (c # cs) sep =
     (if prefix sep (c # cs) then Some ([], drop (length sep) (c # cs))
      else map_option (\<lambda>(before, after). (c # before, after)) (Cut cs sep))"

definition newline :: char where
  "newline = CHR 0x0A"

definition text_of :: "string list \<Rightarrow> string" where
  "text_of ls = concat (map (\<lambda>l. l @ [newline]) ls)"

definition parse_line :: "string \<Rightarrow> (string \<times> string list) option" where
  "parse_line l = map_option (\<lambda>(hostname, ips). (hostname, Split ips '' '')) (Cut l '': '')"

definition reparse :: "string \<Rightarrow> index" where
  "reparse text = List.map_filter parse_line (butlast (Split text [newline]))"

text \<open>
  An index whose strings keep clear of the separators of the default output: no hostname
  holds \<^verbatim>\<open>": "\<close> or a newline, no IP holds a space or a newline, and every hostname has an
  IP.
\<close>

definition plain_index :: "index \<Rightarrow> bool" where
  "plain_index m =
     (\<forall>(h, ips) \<in> set m.
        \<not> Contains h '': '' \<and> newline \<notin> set h \<and> ips \<noteq> [] \<and>
        (\<forall>ip \<in> set ips. CHR '' '' \<notin> set ip \<and> newline \<notin> set ip))"

subsection \<open>A sample environment\<close>

text \<open>
  One environment, small enough to compute with, on which the theorems below are
  instantiated. Two ASN pages answer with one prefix each, a third ASN is answered with
  status 500, two CIDR pages list hostnames, and every other URL is a transport error.
  As Go's \<^verbatim>\<open>net/url\<close> does, \<open>NewRequest\<close> refuses a URL that holds an ASCII control byte
  (the error text is shortened). The stand-in for \<^verbatim>\<open>regexp\<close> knows one pattern that does
  not compile, \<^verbatim>\<open>(\<close>, and reads every other pattern as a literal text to be found in the
  hostname; \<open>TrimSpace\<close> trims ASCII white space.
\<close>

definition ascii_space :: "char \<Rightarrow> bool" where
  "ascii_space c = (c \<in> set [CHR '' '', CHR 0x09, CHR 0x0A, CHR 0x0B, CHR 0x0C, CHR 0x0D])"

definition control_byte :: "char \<Rightarrow> bool" where
  "control_byte c = ((of_char c :: nat) < 32 \<or> (of_char c :: nat) = 127)"

definition demo_pages :: "(string \<times> nat \<times> string) list" where
  "demo_pages =
     [(''https://bgp.he.net/AS64500'', 200, ''page-as64500''),
      (''https://bgp.he.net/AS64501'', 200, ''page-as64501''),
      (''https://bgp.he.net/AS64502'', 500, []),
      (''https://www.robtex.com/cidr/192.0.2.0-24'', 200, ''page-net1''),
      (''https://www.robtex.com/cidr/198.51.100.0-24'', 200, ''page-net2'')]"

definition demo_documents :: "(string \<times> document) list" where
  "demo_documents =
     [(''page-as64500'', \<lparr>prefix_rows = ['' 192.0.2.0/24 ''], dns_anchors = []\<rparr>),
      (''page-as64501'', \<lparr>prefix_rows = [''198.51.100.0/24'', '' ''], dns_anchors = []\<rparr>),
      (''page-net1'', \<lparr>prefix_rows = [], dns_anchors =
         [(''https://www.robtex.com/dns-lookup/host1.example.com'',
           Some ''https://www.robtex.com/ip-lookup/192.0.2.4''),
          (''https://www.robtex.com/dns-lookup/host2.example.com'',
           Some ''https://www.robtex.com/ip-lookup/192.0.2.4''),
          (''https://www.robtex.com/dns-lookup/host1.example.com'',
           Some ''https://www.robtex.com/ip-lookup/192.0.2.5'')]\<rparr>),
      (''page-net2'', \<lparr>prefix_rows = [], dns_anchors =
         [(''https://www.robtex.com/dns-lookup/host3.example.org'',
           Some ''https://www.robtex.com/ip-lookup/198.51.100.7'')]\<rparr>)]"

definition demo_env :: env where
  "demo_env = \<lparr>
     NewRequest = (\<lambda>u. if list_ex control_byte u
                         then Some ''net/url: invalid control character in URL'' else None),
     Do = (\<lambda>req. map_option (\<lambda>(status, body). \<lparr>StatusCode = status, Body = body\<rparr>)
                    (map_of demo_pages (URL req))),
     NewDocumentFromReader = map_of demo_documents,
     TrimSpace = (\<lambda>s. rev (dropWhile ascii_space (rev (dropWhile ascii_space s)))),
     Compile = (\<lambda>pattern. if pattern = ''(''
                            then Inl ''error parsing regexp: missing closing )''
                            else Inr (\<lambda>s. Contains s pattern))\<rparr>"

text \<open>A process that has printed and sent nothing yet.\<close>

definition start :: proc where
  "start = \<lparr>stdout = [], requests = []\<rparr>"

text \<open>Two command lines: neither list given, and both given.\<close>

definition no_input :: flags where
  "no_input = \<lparr>cidr_flag = [], asn_flag = [], hosts_flag = False, fqdn_flag = False,
     filter_flag = []\<rparr>"

definition both_inputs :: flags where
  "both_inputs = \<lparr>cidr_flag = ''198.51.100.0/24'', asn_flag = ''AS64500'', hosts_flag = False,
     fqdn_flag = False, filter_flag = []\<rparr>"

text \<open>The index that the sample lookup of \<^verbatim>\<open>192.0.2.0/24\<close> builds.\<close>

definition net1_index :: index where
  "net1_index =
     [(''host1.example.com'', [''192.0.2.4'', ''192.0.2.5'']),
      (''host2.example.com'', [''192.0.2.4''])]"

text \<open>An index, and two lookup results that share a hostname.\<close>

definition demo_index :: index where
  "demo_index =
     [(''host1.example.com'', [''192.0.2.4'', ''192.0.2.5'']),
      (''host2.example.com'', [''192.0.2.4'']),
      (''mail.example.org'', [''198.51.100.7''])]"

definition part_a :: index where
  "part_a = [(''host1.example.com'', [''192.0.2.4''])]"

definition part_b :: index where
  "part_b = [(''host2.example.com'', [''192.0.2.5'']), (''host1.example.com'', [''192.0.2.9''])]"

section \<open>Properties\<close>

subsection \<open>Strings\<close>

lemma Split_not_Nil [simp]: "Split s sep \<noteq> []"
  by (induction s sep rule: Split.induct) (simp_all split: list.splits)

lemma Split_char_free: "c \<notin> set x \<Longrightarrow> Split x [c] = [x]"
  by (induction x) (auto split: list.splits)

lemma Split_char_append: "c \<notin> set x \<Longrightarrow> Split (x @ c # rest) [c] = x # Split rest [c]"
  by (induction x) (auto split: list.splits)

lemma Split_pieces: "x \<in> set (Split s [c]) \<Longrightarrow> c \<notin> set x"
  by (induction s arbitrary: x) (auto split: list.splits if_splits)

text \<open>Splitting undoes joining, when no element holds the separator.\<close>

lemma Split_Join:
  "xs \<noteq> [] \<Longrightarrow> \<forall>x\<in>set xs. c \<notin> set x \<Longrightarrow> Split (Join xs [c]) [c] = xs"
proof (induction xs "[c]" rule: Join.induct)
  case 1
  then show ?case by simp
next
  case (2 x)
  then show ?case by (simp add: Split_char_free)
next
  case (3 x y ys)
  then show ?case by (simp add: Split_char_append)
qed

lemma Join_char_free:
  "\<forall>x\<in>set xs. c \<notin> set x \<Longrightarrow> c \<notin> set sep \<Longrightarrow> c \<notin> set (Join xs sep)"
  by (induction xs sep rule: Join.induct) auto

lemma Split_text_of:
  "\<forall>l\<in>set ls. newline \<notin> set l \<Longrightarrow> Split (text_of ls) [newline] = ls @ [[]]"
  by (induction ls) (simp_all add: text_of_def Split_char_append)

lemma Cut_first:
  "\<not> Contains h '': '' \<Longrightarrow> Cut (h @ '': '' @ rest) '': '' = Some (h, rest)"
proof (induction h)
  case Nil
  then show ?case by simp
next
  case (Cons c h)
  then show ?case by (cases h) auto
qed

text \<open>With \<open>n < 0\<close> and one byte for another, \<open>Replace\<close> maps over the string.\<close>

lemma Replace_char_all:
  "n < 0 \<Longrightarrow> Replace s [a] [b] n = map (\<lambda>c. if c = a then b else c) s"
  by (induction s arbitrary: n) auto

subsection \<open>The index\<close>

lemma has_key_hostnames: "has_key m k = (k \<in> hostnames m)"
  by (simp add: has_key_def hostnames_def)

lemma hostnames_Nil [simp]: "hostnames [] = {}"
  by (simp add: hostnames_def)

lemma hostnames_Cons [simp]: "hostnames (p # m) = insert (fst p) (hostnames m)"
  by (simp add: hostnames_def)

lemma set_member_Nil [simp]: "set_member [] k x = []"
  by (simp add: set_member_def)

lemma set_member_Cons [simp]:
  "set_member ((k', s) # m) k x =
     (if k' = k then (k', if x \<in> set s then s else s @ [x]) else (k', s)) # set_member m k x"
  by (simp add: set_member_def)

lemma hostnames_set_member [simp]: "hostnames (set_member m k x) = hostnames m"
  by (induction m) (auto simp: hostnames_def set_member_def)

lemma hostnames_ensure [simp]: "hostnames (ensure m k) = insert k (hostnames m)"
  by (auto simp: hostnames_def ensure_def has_key_def make_entry_def)

text \<open>The key is there when \<^verbatim>\<open>m[k][x] = struct{}{}\<close> runs: the statement never panics.\<close>

lemma has_key_ensure: "has_key (ensure m k) k"
  by (simp add: has_key_hostnames)

lemma ips_of_Nil [simp]: "ips_of [] k = {}"
  by (simp add: ips_of_def)

lemma ips_of_Cons: "ips_of ((k', s) # m) k = (if k' = k then set s else {}) \<union> ips_of m k"
  by (simp add: ips_of_def)

lemma ips_of_append: "ips_of (m @ m') k = ips_of m k \<union> ips_of m' k"
  by (simp add: ips_of_def)

lemma ips_of_outside: "k \<notin> hostnames m \<Longrightarrow> ips_of m k = {}"
  by (induction m) (auto simp: ips_of_Cons hostnames_def)

lemma ips_of_iff: "x \<in> ips_of m k \<longleftrightarrow> (\<exists>s. (k, s) \<in> set m \<and> x \<in> set s)"
  by (induction m) (auto simp: ips_of_Cons split: if_splits)

lemma ips_of_ensure [simp]: "ips_of (ensure m k) h = ips_of m h"
  by (simp add: ensure_def make_entry_def ips_of_append ips_of_Cons)

lemma ips_of_set_member:
  "ips_of (set_member m k x) h =
     (if h = k \<and> k \<in> hostnames m then insert x (ips_of m h) else ips_of m h)"
proof (induction m)
  case Nil
  then show ?case by simp
next
  case (Cons p m)
  obtain k' s where p: "p = (k', s)" by (cases p)
  show ?case
    unfolding p using Cons.IH by (auto simp: ips_of_Cons split: if_splits)
qed

text \<open>The keys stay distinct: the list is a map.\<close>

lemma keys_set_member [simp]: "map fst (set_member m k x) = map fst m"
  by (induction m) (auto simp: set_member_def)

lemma distinct_keys_ensure: "distinct (map fst m) \<Longrightarrow> distinct (map fst (ensure m k))"
  by (auto simp: ensure_def make_entry_def has_key_def)

lemma hostnames_index_map: "(h \<in> hostnames m) = (index_map m h \<noteq> None)"
  by (simp add: index_map_def has_key_hostnames)

lemma ips_of_index_map: "ips_of m h = (case index_map m h of Some s \<Rightarrow> s | None \<Rightarrow> {})"
  by (simp add: index_map_def has_key_hostnames ips_of_outside)

text \<open>On a list with distinct keys, \<open>index_map\<close> is the lookup in the list.\<close>

lemma index_map_map_of:
  "distinct (map fst m) \<Longrightarrow> index_map m k = map_option set (map_of m k)"
proof (induction m)
  case Nil
  then show ?case by (simp add: index_map_def has_key_def)
next
  case (Cons p m)
  obtain k' s where p: "p = (k', s)" by (cases p)
  from Cons.prems have "k' \<notin> hostnames m" "distinct (map fst m)"
    by (auto simp: p hostnames_def)
  with Cons.IH show ?case
    by (auto simp: p index_map_def has_key_hostnames ips_of_Cons ips_of_outside)
qed

subsection \<open>Merging\<close>

lemma hostnames_add_ips [simp]:
  "hostnames (foldl (\<lambda>r ip. set_member r k ip) m v) = hostnames m"
  by (induction v arbitrary: m) simp_all

lemma ips_of_add_ips:
  "k \<in> hostnames m \<Longrightarrow>
   ips_of (foldl (\<lambda>r ip. set_member r k ip) m v) h =
     (if h = k then ips_of m h \<union> set v else ips_of m h)"
  by (induction v arbitrary: m) (auto simp: ips_of_set_member)

lemma hostnames_merge_entry [simp]:
  "hostnames (merge_entry r kv) = insert (fst kv) (hostnames r)"
  by (simp add: merge_entry_def)

lemma ips_of_merge_entry:
  "ips_of (merge_entry r kv) h = (if h = fst kv then ips_of r h \<union> set (snd kv) else ips_of r h)"
  by (simp add: merge_entry_def ips_of_add_ips)

lemma merge_index_Nil [simp]: "merge_index r [] = r"
  by (simp add: merge_index_def)

lemma merge_index_Cons [simp]: "merge_index r (kv # res) = merge_index (merge_entry r kv) res"
  by (simp add: merge_index_def)

text \<open>Merging a lookup result adds its hostnames and unites the sets.\<close>

lemma hostnames_merge_index [simp]:
  "hostnames (merge_index r res) = hostnames r \<union> hostnames res"
proof (induction res arbitrary: r)
  case Nil
  then show ?case by simp
next
  case (Cons kv res)
  then show ?case by auto
qed

lemma ips_of_merge_index:
  "ips_of (merge_index r res) h = ips_of r h \<union> ips_of res h"
proof (induction res arbitrary: r)
  case Nil
  then show ?case by simp
next
  case (Cons kv res)
  then show ?case
    by (cases kv) (auto simp: ips_of_merge_entry ips_of_Cons)
qed

lemma index_map_merge_index:
  "index_map (merge_index r a) h =
     (case (index_map r h, index_map a h) of
        (None, None) \<Rightarrow> None
      | (Some s, None) \<Rightarrow> Some s
      | (None, Some t) \<Rightarrow> Some t
      | (Some s, Some t) \<Rightarrow> Some (s \<union> t))"
  by (auto simp: index_map_def has_key_hostnames ips_of_merge_index ips_of_outside)

lemma hostnames_foldl_merge:
  "hostnames (foldl merge_index r ps) = hostnames r \<union> (\<Union>p\<in>set ps. hostnames p)"
  by (induction ps arbitrary: r) auto

lemma ips_of_foldl_merge:
  "ips_of (foldl merge_index r ps) h = ips_of r h \<union> (\<Union>p\<in>set ps. ips_of p h)"
  by (induction ps arbitrary: r) (auto simp: ips_of_merge_index)

text \<open>
  The mapping of the merged index is a function of the set of the mappings merged:
  neither their order nor their number of occurrences enters.
\<close>

lemma index_map_foldl_merge:
  "index_map (foldl merge_index r ps) h =
     (if index_map r h \<noteq> None \<or> (\<exists>f\<in>set (map index_map ps). f h \<noteq> None)
      then Some ((case index_map r h of Some s \<Rightarrow> s | None \<Rightarrow> {}) \<union>
                 (\<Union>f\<in>set (map index_map ps). case f h of Some s \<Rightarrow> s | None \<Rightarrow> {}))
      else None)"
proof -
  have "index_map (foldl merge_index r ps) h =
     (if h \<in> hostnames r \<or> (\<exists>p\<in>set ps. h \<in> hostnames p)
      then Some (ips_of r h \<union> (\<Union>p\<in>set ps. ips_of p h)) else None)"
    by (simp add: index_map_def has_key_hostnames hostnames_foldl_merge ips_of_foldl_merge)
  then show ?thesis
    by (simp add: hostnames_index_map ips_of_index_map)
qed

lemma index_map_aggregate_cong:
  assumes "set (map index_map ps) = set (map index_map qs)"
  shows "index_map (aggregate ps) = index_map (aggregate qs)"
proof
  fix h
  show "index_map (aggregate ps) h = index_map (aggregate qs) h"
    unfolding aggregate_def index_map_foldl_merge assms ..
qed

text \<open>The merged index has distinct keys, as a Go map has.\<close>

lemma keys_members [simp]: "map fst (foldl (\<lambda>r ip. set_member r k ip) m v) = map fst m"
  by (induction v arbitrary: m) simp_all

lemma distinct_keys_merge_entry:
  "distinct (map fst r) \<Longrightarrow> distinct (map fst (merge_entry r kv))"
  by (simp add: merge_entry_def distinct_keys_ensure)

lemma distinct_keys_merge_index:
  "distinct (map fst r) \<Longrightarrow> distinct (map fst (merge_index r res))"
  by (induction res arbitrary: r) (simp_all add: distinct_keys_merge_entry)

lemma distinct_keys_foldl_merge:
  "distinct (map fst r) \<Longrightarrow> distinct (map fst (foldl merge_index r ps))"
  by (induction ps arbitrary: r) (simp_all add: distinct_keys_merge_index)

lemma distinct_keys_aggregate: "distinct (map fst (aggregate ps))"
  by (simp add: aggregate_def distinct_keys_foldl_merge)

subsection \<open>Lookups and loops\<close>

lemma searchCIDR_url: "robtexURL @ Replace cidr ''/'' ''-'' (- 1) = cidr_url cidr"
  by (simp add: cidr_url_def Replace_char_all)

lemma searchCIDR_refused:
  "NewRequest e (cidr_url cidr) = Some err \<Longrightarrow>
   searchCIDR e cidr st = Fatal (''Failed to create HTTP request: '' @ err) st"
  by (simp add: searchCIDR_def searchCIDR_url del: Replace.simps)

lemma searchCIDR_returns:
  "NewRequest e (cidr_url cidr) = None \<Longrightarrow>
   \<exists>res. searchCIDR e cidr st = Return res (send (GET (cidr_url cidr)) st)"
  by (simp add: searchCIDR_def searchCIDR_url Let_def del: Replace.simps split: option.splits)

lemma searchCIDR_soft:
  "NewRequest e (cidr_url cidr) = None \<Longrightarrow> lookup_fails e (GET (cidr_url cidr)) \<Longrightarrow>
   searchCIDR e cidr st = Return [] (send (GET (cidr_url cidr)) st)"
  by (auto simp: searchCIDR_def searchCIDR_url Let_def lookup_fails_def
           simp del: Replace.simps split: option.splits)

lemma searchCIDR_cases:
  obtains (refused) err where
    "searchCIDR e cidr st = Fatal (''Failed to create HTTP request: '' @ err) st"
  | (returned) res where
    "searchCIDR e cidr st = Return res (send (GET (cidr_url cidr)) st)"
proof (cases "NewRequest e (cidr_url cidr)")
  case None
  from searchCIDR_returns[OF this] show ?thesis using returned by blast
next
  case (Some err)
  from searchCIDR_refused[OF this] show ?thesis using refused by blast
qed

text \<open>The result of a lookup has distinct keys.\<close>

lemma distinct_keys_anchors:
  "distinct (map fst hs) \<Longrightarrow> distinct (map fst (foldl each_anchor hs as))"
  by (induction as arbitrary: hs)
     (simp_all add: each_anchor_def Let_def distinct_keys_ensure del: Replace.simps)

lemma distinct_keys_searchCIDR:
  "searchCIDR e cidr st = Return res st1 \<Longrightarrow> distinct (map fst res)"
  using distinct_keys_anchors[of "[]"]
  by (auto simp: searchCIDR_def Let_def simp del: Replace.simps split: option.splits if_splits)

text \<open>
  The loop over the CIDR blocks sends only CIDR lookups, prints nothing, and returns the
  lookups' results merged in turn.
\<close>

lemma cidr_loop_effects:
  "\<exists>rs. requests (final (cidr_loop e cidrs results st)) = requests st @ rs \<and>
        set rs \<subseteq> (\<lambda>cidr. GET (cidr_url cidr)) ` set cidrs \<and>
        stdout (final (cidr_loop e cidrs results st)) = stdout st"
proof (induction cidrs arbitrary: results st)
  case Nil
  then show ?case by simp
next
  case (Cons cidr cidrs)
  show ?case
  proof (cases rule: searchCIDR_cases[of e cidr st])
    case (refused err)
    then show ?thesis by simp
  next
    case (returned res)
    from Cons.IH[of "merge_index results res" "send (GET (cidr_url cidr)) st"]
    obtain rs where
      "requests (final (cidr_loop e cidrs (merge_index results res)
          (send (GET (cidr_url cidr)) st))) = requests (send (GET (cidr_url cidr)) st) @ rs"
      "set rs \<subseteq> (\<lambda>cidr. GET (cidr_url cidr)) ` set cidrs"
      "stdout (final (cidr_loop e cidrs (merge_index results res)
          (send (GET (cidr_url cidr)) st))) = stdout (send (GET (cidr_url cidr)) st)"
      by blast
    then show ?thesis
      using returned by (intro exI[of _ "GET (cidr_url cidr) # rs"]) (auto simp: send_def)
  qed
qed

lemma searchCIDR_result:
  "searchCIDR e cidr st = Return res st1 \<Longrightarrow> res = lookup_result e cidr"
  by (auto simp: lookup_result_def searchCIDR_def Let_def simp del: Replace.simps
           split: option.splits if_splits)

lemma cidr_loop_fold:
  "cidr_loop e cidrs results st = Return r st1 \<Longrightarrow>
   r = foldl merge_index results (map (lookup_result e) cidrs)"
proof (induction cidrs arbitrary: results st)
  case Nil
  then show ?case by simp
next
  case (Cons cidr cidrs)
  from Cons.prems obtain res st2 where s: "searchCIDR e cidr st = Return res st2"
    and l: "cidr_loop e cidrs (merge_index results res) st2 = Return r st1"
    by (auto split: outcome.splits)
  from Cons.IH[OF l] searchCIDR_result[OF s] show ?case by simp
qed

text \<open>The loop over a permutation of the CIDR blocks returns the same mapping.\<close>

lemma cidr_loop_order:
  assumes "cidr_loop e cidrs [] st = Return r st1"
    and "cidr_loop e cidrs' [] st' = Return r' st1'"
    and "mset cidrs = mset cidrs'"
  shows "index_map r = index_map r'"
proof -
  from assms(3) have "set cidrs = set cidrs'" by (rule mset_eq_setD)
  then have "set (map index_map (map (lookup_result e) cidrs)) =
             set (map index_map (map (lookup_result e) cidrs'))"
    by simp
  then have "index_map (aggregate (map (lookup_result e) cidrs)) =
             index_map (aggregate (map (lookup_result e) cidrs'))"
    by (rule index_map_aggregate_cong)
  with cidr_loop_fold[OF assms(1)] cidr_loop_fold[OF assms(2)] show ?thesis
    by (simp add: aggregate_def)
qed

lemma cidr_loop_fatal:
  "cidr_loop e cidrs results st = Fatal msg st1 \<Longrightarrow>
   \<exists>err. msg = ''Failed to create HTTP request: '' @ err"
proof (induction cidrs arbitrary: results st)
  case Nil
  then show ?case by simp
next
  case (Cons cidr cidrs)
  show ?case
  proof (cases rule: searchCIDR_cases[of e cidr st])
    case (refused err)
    with Cons.prems show ?thesis by auto
  next
    case (returned res)
    with Cons.prems Cons.IH show ?thesis by auto
  qed
qed

text \<open>The loop of \<^verbatim>\<open>searchASN\<close> over a list in two parts.\<close>

lemma asn_loop_append:
  "asn_loop e (xs @ ys) ranges st =
     (case asn_loop e xs ranges st of
        Fatal msg st1 \<Rightarrow> Fatal msg st1
      | Return ranges1 st1 \<Rightarrow> asn_loop e ys ranges1 st1)"
  by (induction e xs ranges st rule: asn_loop.induct)
     (simp_all add: Let_def split: option.splits)

lemma asn_loop_skip:
  "NewRequest e (bgpURL @ asn) = None \<Longrightarrow> lookup_fails e (GET (bgpURL @ asn)) \<Longrightarrow>
   asn_loop e (asn # rest) ranges st = asn_loop e rest ranges (send (GET (bgpURL @ asn)) st)"
  by (auto simp: lookup_fails_def Let_def split: option.splits)

lemma asn_loop_step:
  "NewRequest e (bgpURL @ asn) = None \<Longrightarrow>
   \<exists>ranges1 st1. asn_loop e (asn # rest) ranges st = asn_loop e rest ranges1 st1"
  by (cases "Do e (GET (bgpURL @ asn))") (auto simp: Let_def split: option.splits)

lemma asn_loop_fatal:
  "asn_loop e asns ranges st = Fatal msg st1 \<Longrightarrow>
   \<exists>err. msg = ''Failed to create HTTP request: '' @ err"
proof (induction asns arbitrary: ranges st)
  case Nil
  then show ?case by simp
next
  case (Cons asn rest)
  show ?case
  proof (cases "NewRequest e (bgpURL @ asn)")
    case None
    from asn_loop_step[OF this, of rest ranges st] Cons.prems
    obtain ranges1 st2 where "asn_loop e rest ranges1 st2 = Fatal msg st1"
      by auto
    then show ?thesis by (rule Cons.IH)
  next
    case (Some err)
    with Cons.prems have "msg = ''Failed to create HTTP request: '' @ err"
      by simp
    then show ?thesis by blast
  qed
qed

lemma asns_loop_fatal:
  "asns_loop e asns results st = Fatal msg st1 \<Longrightarrow>
   \<exists>err. msg = ''Failed to create HTTP request: '' @ err"
proof (induction asns arbitrary: results st)
  case Nil
  then show ?case by simp
next
  case (Cons asn asns)
  then show ?case
    by (auto simp: searchASN_def split: outcome.splits dest: asn_loop_fatal cidr_loop_fatal)
qed

text \<open>
  A call of \<^verbatim>\<open>searchASN\<close> with one ASN prints each prefix it returns once. The \<open>Action\<close>
  only makes such calls: it splits the flag at the commas first (lemma \<open>Split_pieces\<close>).
\<close>

lemma asn_loop_single:
  "asn_loop e [asn] [] st = Return ranges st1 \<Longrightarrow> stdout st1 = stdout st @ ranges"
  by (auto simp: Let_def send_def split: option.splits if_splits)

lemma searchASN_single:
  assumes "CHR '','' \<notin> set asn" and "searchASN e asn st = Return ranges st1"
  shows "stdout st1 = stdout st @ ranges"
proof -
  from assms(1) have "Split asn '','' = [asn]" by (rule Split_char_free)
  with assms(2) have "asn_loop e [asn] [] st = Return ranges st1"
    by (simp add: searchASN_def)
  then show ?thesis by (rule asn_loop_single)
qed

text \<open>\<^verbatim>\<open>searchASN\<close> on a list of ASNs joined by commas runs the loop on that list.\<close>

lemma searchASN_Join:
  "asns \<noteq> [] \<Longrightarrow> \<forall>asn\<in>set asns. CHR '','' \<notin> set asn \<Longrightarrow>
   searchASN e (Join asns '','') st = asn_loop e asns [] st"
  by (simp add: searchASN_def Split_Join)

text \<open>
  What a call of \<^verbatim>\<open>searchASN\<close> with one ASN does: it ends the process when the URL is
  refused, and else sends one request, returns the prefixes discovered and prints each of
  them once. The loop of the \<open>Action\<close> over the ASNs prints nothing else (the CIDR lookups
  print nothing), so its output is the prefixes discovered for the ASNs it got through,
  in order.
\<close>

lemma foldl_each_row:
  "foldl (each_row e) ranges rows = ranges @ [p \<leftarrow> map (TrimSpace e) rows. p \<noteq> []]"
  by (induction rows arbitrary: ranges) (simp_all add: each_row_def Let_def)

lemma asn_loop_one:
  "asn_loop e [asn] [] st =
     (case NewRequest e (bgpURL @ asn) of
        Some err \<Rightarrow> Fatal (''Failed to create HTTP request: '' @ err) st
      | None \<Rightarrow> Return (discovered e asn)
          (st\<lparr>stdout := stdout st @ discovered e asn,
              requests := requests st @ [GET (bgpURL @ asn)]\<rparr>))"
  by (simp add: discovered_def foldl_each_row Let_def send_def split: option.splits)

lemma searchASN_one:
  assumes "CHR '','' \<notin> set asn"
  shows "searchASN e asn st =
     (case NewRequest e (bgpURL @ asn) of
        Some err \<Rightarrow> Fatal (''Failed to create HTTP request: '' @ err) st
      | None \<Rightarrow> Return (discovered e asn)
          (st\<lparr>stdout := stdout st @ discovered e asn,
              requests := requests st @ [GET (bgpURL @ asn)]\<rparr>))"
proof -
  from assms have "Split asn '','' = [asn]" by (rule Split_char_free)
  then show ?thesis by (simp add: searchASN_def asn_loop_one del: asn_loop.simps)
qed

lemma asns_loop_trace:
  "\<forall>asn\<in>set asns. CHR '','' \<notin> set asn \<Longrightarrow>
   \<exists>k\<le>length asns.
      stdout (final (asns_loop e asns results st)) =
        stdout st @ concat (map (discovered e) (take k asns)) \<and>
      (\<forall>r st1. asns_loop e asns results st = Return r st1 \<longrightarrow> k = length asns)"
proof (induction asns arbitrary: results st)
  case Nil
  then show ?case by simp
next
  case (Cons asn rest)
  then have c: "CHR '','' \<notin> set asn" and r: "\<forall>asn\<in>set rest. CHR '','' \<notin> set asn"
    by simp_all
  show ?case
  proof (cases "NewRequest e (bgpURL @ asn)")
    case (Some err)
    then show ?thesis
      by (intro exI[of _ 0]) (simp add: searchASN_one[OF c])
  next
    case None
    let ?st1 = "st\<lparr>stdout := stdout st @ discovered e asn,
              requests := requests st @ [GET (bgpURL @ asn)]\<rparr>"
    have s: "searchASN e asn st = Return (discovered e asn) ?st1"
      by (simp add: searchASN_one[OF c] None)
    from cidr_loop_effects[of e "discovered e asn" results ?st1]
    have out: "stdout (final (cidr_loop e (discovered e asn) results ?st1)) =
               stdout st @ discovered e asn"
      by auto
    show ?thesis
    proof (cases "cidr_loop e (discovered e asn) results ?st1")
      case (Fatal msg st2)
      with out s show ?thesis
        by (intro exI[of _ 1]) simp
    next
      case (Return results1 st2)
      from Cons.IH[OF r, of results1 st2] obtain k where k: "k \<le> length rest"
        "stdout (final (asns_loop e rest results1 st2)) =
           stdout st2 @ concat (map (discovered e) (take k rest))"
        "\<forall>r st1. asns_loop e rest results1 st2 = Return r st1 \<longrightarrow> k = length rest"
        by blast
      from Return out have "stdout st2 = stdout st @ discovered e asn" by simp
      with k s Return show ?thesis
        by (intro exI[of _ "Suc k"]) simp
    qed
  qed
qed

subsection \<open>Every index the program builds gives each hostname an IP\<close>












subsection \<open>Printing\<close>

lemma keys_list_id [simp]: "keys_list s = s"
proof -
  have "foldl (\<lambda>l x. l @ [x]) acc s = acc @ s" for acc
    by (induction s arbitrary: acc) simp_all
  then show ?thesis by (simp add: keys_list_def)
qed

lemma ips_of_invert_ips:
  "ips_of (foldl (\<lambda>hr ip. set_member (ensure hr ip) ip h) hr ips) k =
     ips_of hr k \<union> (if k \<in> set ips then {h} else {})"
  by (induction ips arbitrary: hr) (auto simp: ips_of_set_member)

lemma ips_of_invert_entry:
  "ips_of (invert_entry f re hr entry) ip =
     ips_of hr ip \<union> (if keeps f re (fst entry) \<and> ip \<in> set (snd entry) then {fst entry} else {})"
  by (simp add: invert_entry_def ips_of_invert_ips)

text \<open>What \<open>hostsResult\<close> holds after the first loop of the hosts branch.\<close>

lemma ips_of_invert:
  "ips_of (foldl (invert_entry f re) hr results) ip =
     ips_of hr ip \<union> {h. \<exists>ips. (h, ips) \<in> set results \<and> keeps f re h \<and> ip \<in> set ips}"
proof (induction results arbitrary: hr)
  case Nil
  then show ?case by simp
next
  case (Cons entry results)
  show ?case
    by (cases entry) (auto simp: Cons.IH ips_of_invert_entry)
qed

text \<open>
  With no pattern, or one that compiles, the function returns, and the condition of its
  loops is \<open>passes\<close>.
\<close>

lemma printResults_valid:
  assumes "filter' = [] \<or> compiles e filter'"
  shows "\<exists>re. (\<forall>h. keeps filter' re h = passes e filter' h) \<and>
     printResults e results hosts fqdn filter' st =
       (if hosts then
          Return () (st\<lparr>stdout := stdout st @
             map (\<lambda>(ip, hostnames). hosts_line ip hostnames)
               (foldl (invert_entry filter' re) [] results)\<rparr>)
        else Return () (st\<lparr>stdout := stdout st @
             concat (map (entry_lines fqdn filter' re) results)\<rparr>))"
proof (cases "filter' = []")
  case True
  then show ?thesis
    by (intro exI[of _ None]) (simp add: printResults_def keeps_def passes_def)
next
  case False
  with assms obtain m where m: "Compile e filter' = Inr m"
    by (auto simp: compiles_def split: sum.splits)
  show ?thesis
    by (intro exI[of _ "Some m"]) (simp add: printResults_def keeps_def passes_def m False)
qed

lemma entry_lines_concat:
  assumes "\<forall>h. keeps filter' re h = passes e filter' h"
  shows "concat (map (entry_lines fqdn filter' re) results) =
     map (\<lambda>(h, ips). if fqdn then fqdn_line h else default_line h ips)
       (filtered e filter' results)"
  using assms by (induction results) (auto simp: entry_lines_def filtered_def)

text \<open>Outside hosts mode, one line for each entry of the filtered index, in its order.\<close>

lemma printResults_lines:
  assumes "filter' = [] \<or> compiles e filter'"
  shows "printResults e results False fqdn filter' st =
     Return () (st\<lparr>stdout := stdout st @
       map (\<lambda>(h, ips). if fqdn then fqdn_line h else default_line h ips)
         (filtered e filter' results)\<rparr>)"
proof -
  from printResults_valid[OF assms, of results False fqdn st]
  obtain re where re: "\<forall>h. keeps filter' re h = passes e filter' h"
    and p: "printResults e results False fqdn filter' st =
       Return () (st\<lparr>stdout := stdout st @ concat (map (entry_lines fqdn filter' re) results)\<rparr>)"
    by auto
  show ?thesis
    unfolding p entry_lines_concat[OF re] ..
qed

text \<open>
  In hosts mode, one line for each entry of \<open>hostsResult\<close>, which holds the pair of an IP
  and a hostname exactly when the filtered index holds the pair of the hostname and the
  IP.
\<close>

lemma printResults_hosts:
  assumes "filter' = [] \<or> compiles e filter'"
  shows "\<exists>hostsResult.
     printResults e results True fqdn filter' st =
       Return () (st\<lparr>stdout := stdout st @
         map (\<lambda>(ip, hostnames). hosts_line ip hostnames) hostsResult\<rparr>) \<and>
     (\<forall>ip h. (\<exists>hs. (ip, hs) \<in> set hostsResult \<and> h \<in> set hs) \<longleftrightarrow>
        (\<exists>ips. (h, ips) \<in> set (filtered e filter' results) \<and> ip \<in> set ips))"
proof -
  from printResults_valid[OF assms, of results True fqdn st]
  obtain re where re: "\<forall>h. keeps filter' re h = passes e filter' h"
    and p: "printResults e results True fqdn filter' st =
       Return () (st\<lparr>stdout := stdout st @
         map (\<lambda>(ip, hostnames). hosts_line ip hostnames)
           (foldl (invert_entry filter' re) [] results)\<rparr>)"
    by auto
  have "(\<exists>hs. (ip, hs) \<in> set (foldl (invert_entry filter' re) [] results) \<and> h \<in> set hs) \<longleftrightarrow>
        (\<exists>ips. (h, ips) \<in> set (filtered e filter' results) \<and> ip \<in> set ips)" for ip h
    using re ips_of_invert[of filter' re "[]" results ip]
    by (auto simp: ips_of_iff[symmetric] filtered_def)
  with p show ?thesis by blast
qed

lemma printResults_fatal:
  "printResults e results hosts fqdn filter' st = Fatal msg st1 \<Longrightarrow>
   \<exists>err. msg = ''Invalid regex pattern: '' @ err"
  by (auto simp: printResults_def Let_def split: if_splits sum.splits)

lemma printResults_requests:
  "requests (final (printResults e results hosts fqdn filter' st)) = requests st"
  by (auto simp: printResults_def Let_def split: if_splits sum.splits)

subsection \<open>Reading the default output back\<close>

lemma parse_default_line:
  assumes "\<not> Contains h '': ''" "ips \<noteq> []" "\<forall>ip\<in>set ips. CHR '' '' \<notin> set ip"
  shows "parse_line (default_line h ips) = Some (h, ips)"
proof -
  have "Cut (default_line h ips) '': '' = Some (h, Join ips '' '')"
    unfolding default_line_def using assms(1) by (rule Cut_first)
  moreover have "Split (Join ips '' '') '' '' = ips"
    using assms(2,3) by (rule Split_Join)
  ultimately show ?thesis by (simp add: parse_line_def)
qed

lemma map_filter_parse:
  "plain_index m \<Longrightarrow>
   List.map_filter parse_line (map (\<lambda>(h, ips). default_line h ips) m) = m"
proof (induction m)
  case Nil
  then show ?case by simp
next
  case (Cons p m)
  obtain h ips where p: "p = (h, ips)" by (cases p)
  from Cons.prems have "plain_index m" and
    "\<not> Contains h '': ''" "ips \<noteq> []" "\<forall>ip\<in>set ips. CHR '' '' \<notin> set ip"
    by (auto simp: plain_index_def p)
  then show ?case
    by (simp add: p parse_default_line Cons.IH)
qed

lemma default_line_newline_free:
  assumes "newline \<notin> set h" "\<forall>ip\<in>set ips. newline \<notin> set ip"
  shows "newline \<notin> set (default_line h ips)"
proof -
  have "newline \<notin> set (Join ips '' '')"
    using assms(2) by (intro Join_char_free) (simp_all add: newline_def)
  with assms(1) show ?thesis by (simp add: default_line_def newline_def)
qed

lemma reparse_default_lines:
  assumes "plain_index m"
  shows "reparse (text_of (map (\<lambda>(h, ips). default_line h ips) m)) = m"
proof -
  have "newline \<notin> set (default_line h ips)" if "(h, ips) \<in> set m" for h ips
  proof -
    from assms that have "newline \<notin> set h" "\<forall>ip\<in>set ips. newline \<notin> set ip"
      by (auto simp: plain_index_def)
    then show ?thesis by (rule default_line_newline_free)
  qed
  then have "\<forall>l\<in>set (map (\<lambda>(h, ips). default_line h ips) m). newline \<notin> set l"
    by auto
  then show ?thesis
    by (simp add: reparse_def Split_text_of map_filter_parse[OF assms])
qed

subsection \<open>The command line\<close>

lemma passes_no_filter: "passes e [] hostname"
  by (simp add: passes_def)

lemma Action_fatal:
  "Action e c st = Fatal msg st1 \<Longrightarrow>
   (\<exists>err. msg = ''Failed to create HTTP request: '' @ err) \<or>
   (\<exists>err. msg = ''Invalid regex pattern: '' @ err)"
  by (auto simp: Action_def split: if_splits outcome.splits
           dest: cidr_loop_fatal asns_loop_fatal printResults_fatal)

text \<open>The \<open>Action\<close> returns an error in its last branch only.\<close>

lemma Action_error:
  "(Action e c st = Return (Some err) st1) =
     (cidr_flag c = [] \<and> asn_flag c = [] \<and> err = invalid_parameters \<and> st1 = st)"
  by (auto simp: Action_def split: outcome.splits)

lemma main_invalid_parameters:
  "(main e c st = Fatal invalid_parameters st1) =
     (cidr_flag c = [] \<and> asn_flag c = [] \<and> st1 = st)"
proof
  assume m: "main e c st = Fatal invalid_parameters st1"
  show "cidr_flag c = [] \<and> asn_flag c = [] \<and> st1 = st"
  proof (cases "Action e c st")
    case (Return r st2)
    with m show ?thesis
      by (cases r) (auto simp: main_def Action_error)
  next
    case (Fatal msg st2)
    with m have "msg = invalid_parameters" by (simp add: main_def)
    with Action_fatal[OF Fatal] show ?thesis
      by (auto simp: invalid_parameters_def)
  qed
next
  assume "cidr_flag c = [] \<and> asn_flag c = [] \<and> st1 = st"
  then show "main e c st = Fatal invalid_parameters st1"
    by (simp add: main_def Action_def)
qed

text \<open>With a CIDR list, the ASN flag is never read.\<close>

lemma Action_cidr_first:
  "cidr_flag c \<noteq> [] \<Longrightarrow> Action e c st = Action e (c\<lparr>asn_flag := a\<rparr>) st"
  by (simp add: Action_def split: outcome.splits)

lemma main_cidr_first:
  "cidr_flag c \<noteq> [] \<Longrightarrow> main e c st = main e (c\<lparr>asn_flag := a\<rparr>) st"
  by (simp add: main_def Action_cidr_first[of c e st a])

lemma main_cidr_requests:
  assumes "cidr_flag c \<noteq> []"
  shows "\<exists>rs. requests (final (main e c st)) = requests st @ rs \<and>
     set rs \<subseteq> (\<lambda>cidr. GET (cidr_url cidr)) ` set (Split (cidr_flag c) '','')"
proof -
  let ?loop = "cidr_loop e (Split (cidr_flag c) '','') [] st"
  from cidr_loop_effects[of e "Split (cidr_flag c) '',''" "[]" st]
  obtain rs where rs: "requests (final ?loop) = requests st @ rs"
    "set rs \<subseteq> (\<lambda>cidr. GET (cidr_url cidr)) ` set (Split (cidr_flag c) '','')"
    by blast
  have "requests (final (main e c st)) = requests (final ?loop)"
  proof (cases ?loop)
    case (Return results st1)
    have "requests (final (printResults e results (hosts_flag c) (fqdn_flag c)
          (filter_flag c) st1)) = requests st1"
      by (rule printResults_requests)
    then show ?thesis using assms Return
      by (auto simp: main_def Action_def split: outcome.splits)
  next
    case (Fatal msg st1)
    then show ?thesis using assms by (simp add: main_def Action_def)
  qed
  with rs show ?thesis by auto
qed

lemma cidr_url_not_bgp: "\<not> prefix bgpURL (cidr_url cidr)"
  by (simp add: cidr_url_def robtexURL_def bgpURL_def)

text \<open>
  With a CIDR list and a filter that does not compile, the whole run prints nothing and
  ends with status 1.
\<close>

lemma main_invalid_filter:
  assumes "cidr_flag c \<noteq> []" and "filter_flag c \<noteq> []"
    and "Compile e (filter_flag c) = Inl err"
  shows "stdout (final (main e c st)) = stdout st \<and> exit_status (main e c st) = 1"
proof -
  let ?loop = "cidr_loop e (Split (cidr_flag c) '','') [] st"
  from cidr_loop_effects[of e "Split (cidr_flag c) '',''" "[]" st]
  have out: "stdout (final ?loop) = stdout st" by blast
  show ?thesis
  proof (cases ?loop)
    case (Return results st1)
    have "printResults e results (hosts_flag c) (fqdn_flag c) (filter_flag c) st1 =
        Fatal (''Invalid regex pattern: '' @ err) st1"
      using assms(2,3) by (simp add: printResults_def)
    with Return out assms(1) show ?thesis
      by (simp add: main_def Action_def)
  next
    case (Fatal msg st1)
    with out assms(1) show ?thesis
      by (simp add: main_def Action_def)
  qed
qed

section \<open>The claims\<close>

subsection \<open>C1: the error for missing parameters\<close>

text \<open>
  Claim C1, as amended. When the \<^verbatim>\<open>--cidr\<close> and the \<^verbatim>\<open>--asn\<close> flag are both empty, the program
  reports \<^verbatim>\<open>Invalid parameters. Please provide either -c or -a\<close> and exits with status 1,
  having printed and fetched nothing. That error is reported in no other case. When both
  flags are non-empty the \<open>Action\<close> returns no error: the program runs as it does with the
  CIDR list alone, so one list at most is processed.

  The claim as it was stated also had the error reported when both flags are non-empty;
  \<open>both_inputs_counterexample\<close> below shows a run with both flags that prints its results
  and exits with status 0.
\<close>

theorem invalid_parameters_when_both_empty:
  "(cidr_flag c = [] \<and> asn_flag c = [] \<longrightarrow>
      main e c st = Fatal invalid_parameters st \<and> exit_status (main e c st) = 1) \<and>
   ((\<exists>st1. main e c st = Fatal invalid_parameters st1) \<longrightarrow>
      cidr_flag c = [] \<and> asn_flag c = []) \<and>
   (cidr_flag c \<noteq> [] \<and> asn_flag c \<noteq> [] \<longrightarrow>
      main e c st = main e (c\<lparr>asn_flag := []\<rparr>) st \<and>
      (\<forall>err st1. Action e c st \<noteq> Return (Some err) st1))"
proof (intro conjI impI)
  assume "cidr_flag c = [] \<and> asn_flag c = []"
  then show "main e c st = Fatal invalid_parameters st"
    by (simp add: main_invalid_parameters)
  then show "exit_status (main e c st) = 1" by simp
next
  assume "\<exists>st1. main e c st = Fatal invalid_parameters st1"
  then show "cidr_flag c = []" "asn_flag c = []"
    by (auto simp: main_invalid_parameters)
next
  assume b: "cidr_flag c \<noteq> [] \<and> asn_flag c \<noteq> []"
  then show "main e c st = main e (c\<lparr>asn_flag := []\<rparr>) st"
    by (intro main_cidr_first) simp
  from b show "\<forall>err st1. Action e c st \<noteq> Return (Some err) st1"
    by (simp add: Action_error)
qed

theorem invalid_parameters_when_both_empty_witness:
  "cidr_flag no_input = [] \<and> asn_flag no_input = [] \<and>
   main demo_env no_input start = Fatal invalid_parameters start \<and>
   exit_status (main demo_env no_input start) = 1 \<and>
   cidr_flag both_inputs \<noteq> [] \<and> asn_flag both_inputs \<noteq> [] \<and>
   main demo_env both_inputs start = main demo_env (both_inputs\<lparr>asn_flag := []\<rparr>) start"
proof -
  have none: "cidr_flag no_input = [] \<and> asn_flag no_input = []"
    by (simp add: no_input_def)
  have both: "cidr_flag both_inputs \<noteq> [] \<and> asn_flag both_inputs \<noteq> []"
    by (simp add: both_inputs_def)
  from none both
    invalid_parameters_when_both_empty[of no_input demo_env start]
    invalid_parameters_when_both_empty[of both_inputs demo_env start]
  show ?thesis by blast
qed

text \<open>
  With \<^verbatim>\<open>--cidr 198.51.100.0/24 --asn AS64500\<close> the sample run fetches the CIDR page,
  prints its one result line and returns: no error, status 0, no request for the ASN.
\<close>

theorem both_inputs_counterexample:
  "cidr_flag both_inputs \<noteq> [] \<and> asn_flag both_inputs \<noteq> [] \<and>
   main demo_env both_inputs start =
     Return () \<lparr>stdout = [''host3.example.org: 198.51.100.7''],
                requests = [GET ''https://www.robtex.com/cidr/198.51.100.0-24'']\<rparr> \<and>
   main demo_env both_inputs start \<noteq> Fatal invalid_parameters start \<and>
   exit_status (main demo_env both_inputs start) = 0"
  by code_simp

subsection \<open>C2: merging does not depend on the order\<close>

text \<open>
  Claim C2. Aggregating two sequences of lookup results that are permutations of each
  other gives the same mapping from hostnames to sets of IPs; a result that occurs once
  more in the sequence changes nothing; and one step of the merge loop commutes with
  another and is idempotent, on the mapping. (Lemma \<open>index_map_aggregate_cong\<close> is the
  general fact: the mapping depends on the set of the merged mappings only. Lemma
  \<open>cidr_loop_order\<close> is the same for the loop of \<^verbatim>\<open>main\<close> over the CIDR blocks.)
\<close>

theorem merge_order_independent:
  "(mset ps = mset qs \<longrightarrow> index_map (aggregate ps) = index_map (aggregate qs)) \<and>
   (p \<in> set (ps @ qs) \<longrightarrow>
      index_map (aggregate (ps @ p # qs)) = index_map (aggregate (ps @ qs))) \<and>
   index_map (merge_index (merge_index r a) b) = index_map (merge_index (merge_index r b) a) \<and>
   index_map (merge_index (merge_index r a) a) = index_map (merge_index r a)"
proof (intro conjI impI)
  assume "mset ps = mset qs"
  then have "set ps = set qs" by (rule mset_eq_setD)
  then show "index_map (aggregate ps) = index_map (aggregate qs)"
    by (intro index_map_aggregate_cong) simp
next
  assume "p \<in> set (ps @ qs)"
  then have "set (ps @ p # qs) = set (ps @ qs)" by auto
  then show "index_map (aggregate (ps @ p # qs)) = index_map (aggregate (ps @ qs))"
    by (intro index_map_aggregate_cong) (simp only: set_map)
next
  show "index_map (merge_index (merge_index r a) b) = index_map (merge_index (merge_index r b) a)"
    by (rule ext) (auto simp: index_map_merge_index split: option.splits)
next
  show "index_map (merge_index (merge_index r a) a) = index_map (merge_index r a)"
    by (rule ext) (auto simp: index_map_merge_index split: option.splits)
qed

theorem merge_order_independent_witness:
  "mset [part_a, part_b] = mset [part_b, part_a] \<and>
   index_map (aggregate [part_a, part_b]) = index_map (aggregate [part_b, part_a]) \<and>
   part_a \<in> set ([part_a, part_b] @ [part_b, part_a]) \<and>
   index_map (aggregate ([part_a, part_b] @ part_a # [part_b, part_a])) =
     index_map (aggregate ([part_a, part_b] @ [part_b, part_a])) \<and>
   index_map (aggregate [part_a, part_b]) ''host1.example.com'' =
     Some {''192.0.2.4'', ''192.0.2.9''}"
proof -
  have perm: "mset [part_a, part_b] = mset [part_b, part_a]"
    by (simp add: add_mset_commute)
  have rep: "part_a \<in> set ([part_a, part_b] @ [part_b, part_a])"
    by simp
  have val: "index_map (aggregate [part_a, part_b]) ''host1.example.com'' =
     Some {''192.0.2.4'', ''192.0.2.9''}"
    by (simp add: index_map_def has_key_def ips_of_def aggregate_def part_a_def part_b_def
          merge_index_def merge_entry_def ensure_def make_entry_def set_member_def)
  from perm rep val merge_order_independent[of "[part_a, part_b]" "[part_b, part_a]" part_a]
  show ?thesis by blast
qed

subsection \<open>C3: the filter decides which hostnames are printed\<close>



subsection \<open>C4: hosts mode inverts the filtered index\<close>

text \<open>
  Claim C4. In hosts mode, with a filter that is absent or compiles: for every hostname
  of the filtered index and every IP of its set, a line is printed that starts with the
  IP and a space and goes on with a list of hostnames, joined by spaces, that holds the
  hostname; and every printed line is such a line of an IP and of hostnames each of which
  is in the filtered index with that IP in its set.
\<close>

theorem hosts_mode_inverts_index:
  assumes "filter' = [] \<or> compiles e filter'"
  shows "\<exists>out. printResults e results True fqdn filter' st =
                 Return () (st\<lparr>stdout := stdout st @ out\<rparr>) \<and>
     (\<forall>(h, ips) \<in> set (filtered e filter' results). \<forall>ip \<in> set ips.
        \<exists>hs. hosts_line ip hs \<in> set out \<and> h \<in> set hs) \<and>
     (\<forall>l \<in> set out. \<exists>ip hs. l = hosts_line ip hs \<and>
        (\<forall>h \<in> set hs. \<exists>ips. (h, ips) \<in> set (filtered e filter' results) \<and> ip \<in> set ips))"
proof -
  from printResults_hosts[OF assms, of results fqdn st]
  obtain hostsResult where p: "printResults e results True fqdn filter' st =
       Return () (st\<lparr>stdout := stdout st @
         map (\<lambda>(ip, hostnames). hosts_line ip hostnames) hostsResult\<rparr>)"
    and inv: "\<And>ip h. (\<exists>hs. (ip, hs) \<in> set hostsResult \<and> h \<in> set hs) \<longleftrightarrow>
        (\<exists>ips. (h, ips) \<in> set (filtered e filter' results) \<and> ip \<in> set ips)"
    by blast
  let ?out = "map (\<lambda>(ip, hostnames). hosts_line ip hostnames) hostsResult"
  have a: "\<exists>hs. hosts_line ip hs \<in> set ?out \<and> h \<in> set hs"
    if "(h, ips) \<in> set (filtered e filter' results)" "ip \<in> set ips" for h ips ip
  proof -
    from that inv obtain hs where "(ip, hs) \<in> set hostsResult" "h \<in> set hs" by blast
    then show ?thesis by force
  qed
  have b: "\<exists>ip hs. l = hosts_line ip hs \<and>
           (\<forall>h \<in> set hs. \<exists>ips. (h, ips) \<in> set (filtered e filter' results) \<and> ip \<in> set ips)"
    if "l \<in> set ?out" for l
  proof -
    from that obtain ip hs where l: "l = hosts_line ip hs" and m: "(ip, hs) \<in> set hostsResult"
      by auto
    from m inv
    have "\<forall>h \<in> set hs. \<exists>ips. (h, ips) \<in> set (filtered e filter' results) \<and> ip \<in> set ips"
      by blast
    with l show ?thesis by blast
  qed
  from a b have "(\<forall>(h, ips) \<in> set (filtered e filter' results). \<forall>ip \<in> set ips.
        \<exists>hs. hosts_line ip hs \<in> set ?out \<and> h \<in> set hs) \<and>
     (\<forall>l \<in> set ?out. \<exists>ip hs. l = hosts_line ip hs \<and>
        (\<forall>h \<in> set hs. \<exists>ips. (h, ips) \<in> set (filtered e filter' results) \<and> ip \<in> set ips))"
    by blast
  with p show ?thesis by (intro exI[of _ ?out]) simp
qed

theorem hosts_mode_inverts_index_witness:
  "(''host1'' = [] \<or> compiles demo_env ''host1'') \<and>
   (''host1.example.com'', [''192.0.2.4'', ''192.0.2.5''])
     \<in> set (filtered demo_env ''host1'' demo_index) \<and>
   ''192.0.2.5'' \<in> set [''192.0.2.4'', ''192.0.2.5''] \<and>
   (\<exists>hs. hosts_line ''192.0.2.5'' hs
           \<in> set (stdout (final (printResults demo_env demo_index True False ''host1'' start))) \<and>
         ''host1.example.com'' \<in> set hs) \<and>
   set (stdout (final (printResults demo_env demo_index True False ''host1'' start))) =
     {''192.0.2.4 host1.example.com'', ''192.0.2.5 host1.example.com''}"
proof -
  have v: "''host1'' = [] \<or> compiles demo_env ''host1''"
    by code_simp
  have m: "(''host1.example.com'', [''192.0.2.4'', ''192.0.2.5''])
     \<in> set (filtered demo_env ''host1'' demo_index)"
    by code_simp
  have i: "''192.0.2.5'' \<in> set [''192.0.2.4'', ''192.0.2.5'']"
    by simp
  have e: "stdout start = []"
    by (simp add: start_def)
  have o: "set (stdout (final (printResults demo_env demo_index True False ''host1'' start))) =
     {''192.0.2.4 host1.example.com'', ''192.0.2.5 host1.example.com''}"
    by code_simp
  from hosts_mode_inverts_index[OF v, of demo_index False start] m i e
  have "\<exists>hs. hosts_line ''192.0.2.5'' hs
           \<in> set (stdout (final (printResults demo_env demo_index True False ''host1'' start))) \<and>
         ''host1.example.com'' \<in> set hs"
    by fastforce
  with v m i o show ?thesis by blast
qed

subsection \<open>C5: the default output read back\<close>

text \<open>
  Claim C5, as amended. Let the filter be absent or compile, and let the filtered index be
  plain: no hostname holds \<^verbatim>\<open>": "\<close> or a newline, no IP holds a space or a newline, and every
  hostname has at least one IP. Then the default mode prints one line
  \<^verbatim>\<open>hostname: ip1 ip2\<close> for each hostname of the filtered index, and reading these lines
  back (the text split at the newlines, each line cut at its first \<^verbatim>\<open>": "\<close>, the rest split
  at the spaces) gives the filtered index again, entry by entry, and so its mapping from
  hostnames to sets of IPs.

  The claim as it was stated had this for every index. Hostnames and IPs are the texts
  found in the page, written as they are; \<open>default_output_round_trip_counterexample\<close> below
  is an index with one IP that holds a space, and its line reads back as two IPs.
\<close>

theorem default_output_round_trip:
  assumes "filter' = [] \<or> compiles e filter'"
    and "plain_index (filtered e filter' results)"
  shows "printResults e results False False filter' st =
           Return () (st\<lparr>stdout := stdout st @
             map (\<lambda>(h, ips). default_line h ips) (filtered e filter' results)\<rparr>) \<and>
         reparse (text_of (map (\<lambda>(h, ips). default_line h ips) (filtered e filter' results))) =
           filtered e filter' results \<and>
         index_map (reparse (text_of
             (map (\<lambda>(h, ips). default_line h ips) (filtered e filter' results)))) =
           index_map (filtered e filter' results)"
  using printResults_lines[OF assms(1), of results False st] reparse_default_lines[OF assms(2)]
  by simp

theorem default_output_round_trip_witness:
  "(''host'' = [] \<or> compiles demo_env ''host'') \<and>
   plain_index (filtered demo_env ''host'' demo_index) \<and>
   printResults demo_env demo_index False False ''host'' start =
     Return () \<lparr>stdout = [''host1.example.com: 192.0.2.4 192.0.2.5'',
                          ''host2.example.com: 192.0.2.4''], requests = []\<rparr> \<and>
   reparse (text_of [''host1.example.com: 192.0.2.4 192.0.2.5'',
                     ''host2.example.com: 192.0.2.4'']) =
     [(''host1.example.com'', [''192.0.2.4'', ''192.0.2.5'']),
      (''host2.example.com'', [''192.0.2.4''])]"
proof -
  have v: "''host'' = [] \<or> compiles demo_env ''host''"
    by code_simp
  have pl: "plain_index (filtered demo_env ''host'' demo_index)"
    by code_simp
  have f: "filtered demo_env ''host'' demo_index =
     [(''host1.example.com'', [''192.0.2.4'', ''192.0.2.5'']),
      (''host2.example.com'', [''192.0.2.4''])]"
    by code_simp
  have l: "map (\<lambda>(h, ips). default_line h ips)
       [(''host1.example.com'', [''192.0.2.4'', ''192.0.2.5'']),
        (''host2.example.com'', [''192.0.2.4''])] =
     [''host1.example.com: 192.0.2.4 192.0.2.5'', ''host2.example.com: 192.0.2.4'']"
    by code_simp
  from default_output_round_trip[OF v pl, of start] v pl
  show ?thesis
    unfolding f l by (simp add: start_def)
qed

text \<open>
  One hostname with the one IP \<^verbatim>\<open>192.0.2.4 192.0.2.5\<close> (an address text with a space in
  it): the line printed is the line that a hostname with these two IPs gets, so no way
  of reading can tell the two indexes apart, and the line reads back as two IPs.
\<close>

theorem default_output_round_trip_counterexample:
  "printResults demo_env [(''host1.example.com'', [''192.0.2.4 192.0.2.5''])]
       False False [] start =
     Return () \<lparr>stdout = [''host1.example.com: 192.0.2.4 192.0.2.5''], requests = []\<rparr> \<and>
   printResults demo_env [(''host1.example.com'', [''192.0.2.4'', ''192.0.2.5''])]
       False False [] start =
     Return () \<lparr>stdout = [''host1.example.com: 192.0.2.4 192.0.2.5''], requests = []\<rparr> \<and>
   reparse (text_of [''host1.example.com: 192.0.2.4 192.0.2.5'']) =
     [(''host1.example.com'', [''192.0.2.4'', ''192.0.2.5''])] \<and>
   index_map (reparse (text_of [''host1.example.com: 192.0.2.4 192.0.2.5'']))
       ''host1.example.com''
     \<noteq> index_map [(''host1.example.com'', [''192.0.2.4 192.0.2.5''])] ''host1.example.com''"
  by code_simp

subsection \<open>C6: a filter that does not compile\<close>

text \<open>
  Claim C6. When a filter is given and does not compile, \<^verbatim>\<open>printResults\<close> ends the process
  with the message \<^verbatim>\<open>Invalid regex pattern:\<close> and the compiler's error, whatever the index
  and the two mode flags are, and standard output is as it was before the call: no result
  line is printed. (Lemma \<open>main_invalid_filter\<close>: a whole run on a CIDR list prints nothing
  then.)
\<close>

theorem invalid_filter_prints_nothing:
  assumes "filter' \<noteq> []" and "Compile e filter' = Inl err"
  shows "printResults e results hosts fqdn filter' st =
           Fatal (''Invalid regex pattern: '' @ err) st \<and>
         stdout (final (printResults e results hosts fqdn filter' st)) = stdout st"
  using assms by (simp add: printResults_def)

theorem invalid_filter_prints_nothing_witness:
  "''('' \<noteq> [] \<and>
   Compile demo_env ''('' = Inl ''error parsing regexp: missing closing )'' \<and>
   printResults demo_env demo_index True False ''('' start =
     Fatal ''Invalid regex pattern: error parsing regexp: missing closing )'' start \<and>
   stdout (final (printResults demo_env demo_index True False ''('' start)) = []"
proof -
  have n: "''('' \<noteq> []" by simp
  have c: "Compile demo_env ''('' = Inl ''error parsing regexp: missing closing )''"
    by (simp add: demo_env_def)
  from invalid_filter_prints_nothing[OF n c, of demo_index True False start] n c
  show ?thesis by (simp add: start_def)
qed

subsection \<open>C7: one fetch for a CIDR block, and its silent failures\<close>

text \<open>
  Claim C7, as amended. When \<^verbatim>\<open>http.NewRequest\<close> accepts the lookup URL of the CIDR block
  (the block with every \<^verbatim>\<open>/\<close> replaced by \<^verbatim>\<open>-\<close>, after the fixed base), \<^verbatim>\<open>searchCIDR\<close> sends
  one request, a GET of that URL, and returns to its caller; on a transport error, a
  status other than 200 or a page that does not parse, what it returns is the empty
  result, and merging the empty result changes nothing. When \<^verbatim>\<open>http.NewRequest\<close> refuses
  the URL, no request is sent and the process ends with \<^verbatim>\<open>Failed to create HTTP request\<close>.

  The claim as it was stated had one fetch for every CIDR input;
  \<open>searchCIDR_refused_counterexample\<close> below is a CIDR text that ends in a tab, which Go's
  URL parser refuses.
\<close>

theorem searchCIDR_one_fetch:
  "(NewRequest e (cidr_url cidr) = None \<longrightarrow>
      (\<exists>res. searchCIDR e cidr st = Return res (send (GET (cidr_url cidr)) st)) \<and>
      (lookup_fails e (GET (cidr_url cidr)) \<longrightarrow>
         searchCIDR e cidr st = Return [] (send (GET (cidr_url cidr)) st))) \<and>
   (\<forall>err. NewRequest e (cidr_url cidr) = Some err \<longrightarrow>
      searchCIDR e cidr st = Fatal (''Failed to create HTTP request: '' @ err) st) \<and>
   merge_index results [] = results"
  using searchCIDR_refused searchCIDR_returns searchCIDR_soft by simp

theorem searchCIDR_one_fetch_witness:
  "NewRequest demo_env (cidr_url ''203.0.113.0/24'') = None \<and>
   lookup_fails demo_env (GET (cidr_url ''203.0.113.0/24'')) \<and>
   searchCIDR demo_env ''203.0.113.0/24'' start =
     Return [] (send (GET ''https://www.robtex.com/cidr/203.0.113.0-24'') start) \<and>
   NewRequest demo_env (cidr_url [CHR 0x7F]) =
     Some ''net/url: invalid control character in URL'' \<and>
   searchCIDR demo_env [CHR 0x7F] start =
     Fatal ''Failed to create HTTP request: net/url: invalid control character in URL'' start"
proof -
  have r: "NewRequest demo_env (cidr_url ''203.0.113.0/24'') = None"
    by code_simp
  have f: "lookup_fails demo_env (GET (cidr_url ''203.0.113.0/24''))"
    by code_simp
  have u: "cidr_url ''203.0.113.0/24'' = ''https://www.robtex.com/cidr/203.0.113.0-24''"
    by code_simp
  have b: "NewRequest demo_env (cidr_url [CHR 0x7F]) =
     Some ''net/url: invalid control character in URL''"
    by code_simp
  from searchCIDR_one_fetch[of demo_env "''203.0.113.0/24''" start] r f
  have 1: "searchCIDR demo_env ''203.0.113.0/24'' start =
     Return [] (send (GET (cidr_url ''203.0.113.0/24'')) start)"
    by blast
  from searchCIDR_one_fetch[of demo_env "[CHR 0x7F]" start] b
  have 2: "searchCIDR demo_env [CHR 0x7F] start =
     Fatal ''Failed to create HTTP request: net/url: invalid control character in URL'' start"
    by simp
  from r f 1 b 2 show ?thesis unfolding u by blast
qed

text \<open>
  The CIDR text \<^verbatim>\<open>10.0.0.0/8\<close> followed by a tab: the process ends in \<^verbatim>\<open>log.Fatalf\<close> and
  no request has been sent.
\<close>

theorem searchCIDR_refused_counterexample:
  "searchCIDR demo_env (''10.0.0.0/8'' @ [CHR 0x09]) start =
     Fatal ''Failed to create HTTP request: net/url: invalid control character in URL'' start \<and>
   requests (final (searchCIDR demo_env (''10.0.0.0/8'' @ [CHR 0x09]) start)) = []"
  by code_simp

subsection \<open>C8: an ASN whose lookup fails is skipped\<close>

text \<open>
  Claim C8. Let the lookup of one ASN of the list fail by a transport error, a status
  other than 200 or a page that does not parse. Then the loop of \<^verbatim>\<open>searchASN\<close> does with
  the ASNs before it what it does without it, adds no prefix and prints nothing for
  it (the one request is all that is left of it), and goes on with the ASNs after it
  from there: the call does not end at that ASN. (\<^verbatim>\<open>searchASN\<close> runs the loop on its
  argument split at the commas; lemma \<open>searchASN_Join\<close>.)
\<close>

theorem searchASN_skips_failed_lookup:
  assumes "NewRequest e (bgpURL @ asn) = None" and "lookup_fails e (GET (bgpURL @ asn))"
  shows "asn_loop e (before @ asn # rest) ranges st =
     (case asn_loop e before ranges st of
        Fatal msg st1 \<Rightarrow> Fatal msg st1
      | Return ranges1 st1 \<Rightarrow> asn_loop e rest ranges1 (send (GET (bgpURL @ asn)) st1))"
  by (simp add: asn_loop_append asn_loop_skip[OF assms] del: asn_loop.simps
           split: outcome.splits)

theorem searchASN_skips_failed_lookup_witness:
  "NewRequest demo_env (bgpURL @ ''AS64502'') = None \<and>
   lookup_fails demo_env (GET (bgpURL @ ''AS64502'')) \<and>
   asn_loop demo_env ([''AS64500''] @ ''AS64502'' # [''AS64501'']) [] start =
     Return [''192.0.2.0/24'', ''198.51.100.0/24'']
       \<lparr>stdout = [''192.0.2.0/24'', ''192.0.2.0/24'', ''198.51.100.0/24''],
        requests = [GET ''https://bgp.he.net/AS64500'', GET ''https://bgp.he.net/AS64502'',
                    GET ''https://bgp.he.net/AS64501'']\<rparr>"
proof -
  have r: "NewRequest demo_env (bgpURL @ ''AS64502'') = None"
    by code_simp
  have f: "lookup_fails demo_env (GET (bgpURL @ ''AS64502''))"
    by code_simp
  have "asn_loop demo_env ([''AS64500''] @ ''AS64502'' # [''AS64501'']) [] start =
     (case asn_loop demo_env [''AS64500''] [] start of
        Fatal msg st1 \<Rightarrow> Fatal msg st1
      | Return ranges1 st1 \<Rightarrow>
          asn_loop demo_env [''AS64501''] ranges1 (send (GET (bgpURL @ ''AS64502'')) st1))"
    by (rule searchASN_skips_failed_lookup[OF r f])
  also have "\<dots> = Return [''192.0.2.0/24'', ''198.51.100.0/24'']
       \<lparr>stdout = [''192.0.2.0/24'', ''192.0.2.0/24'', ''198.51.100.0/24''],
        requests = [GET ''https://bgp.he.net/AS64500'', GET ''https://bgp.he.net/AS64502'',
                    GET ''https://bgp.he.net/AS64501'']\<rparr>"
    by code_simp
  finally show ?thesis using r f by blast
qed

subsection \<open>C9: the progress trace of \<^verbatim>\<open>searchASN\<close>\<close>

text \<open>
  Claim C9. The \<open>Action\<close> splits the \<^verbatim>\<open>--asn\<close> flag at the commas and calls \<^verbatim>\<open>searchASN\<close>
  with one piece at a time. Such a call returns the prefixes discovered for that ASN and
  has printed them, each once, when it returns (it ends the process instead when
  \<^verbatim>\<open>http.NewRequest\<close> refuses the URL of the ASN). So for every list of
  ASNs on the command line the trace on standard output is the prefixes discovered for
  the first ASN, then those for the second, and so on, each prefix once for each time it
  was discovered: for all the ASNs when the loop returns, and for the ASNs that the loop
  got through when the process ends inside it.
\<close>

theorem trace_prints_each_prefix_once:
  "(CHR '','' \<notin> set asn \<longrightarrow>
      searchASN e asn st =
        (case NewRequest e (bgpURL @ asn) of
           Some err \<Rightarrow> Fatal (''Failed to create HTTP request: '' @ err) st
         | None \<Rightarrow> Return (discovered e asn)
             (st\<lparr>stdout := stdout st @ discovered e asn,
                 requests := requests st @ [GET (bgpURL @ asn)]\<rparr>))) \<and>
   (\<exists>k\<le>length (Split flag '','').
      stdout (final (asns_loop e (Split flag '','') results st)) =
        stdout st @ concat (map (discovered e) (take k (Split flag '',''))) \<and>
      (\<forall>r st2. asns_loop e (Split flag '','') results st = Return r st2 \<longrightarrow>
         k = length (Split flag '','')))"
proof (intro conjI impI)
  assume "CHR '','' \<notin> set asn"
  then show "searchASN e asn st =
        (case NewRequest e (bgpURL @ asn) of
           Some err \<Rightarrow> Fatal (''Failed to create HTTP request: '' @ err) st
         | None \<Rightarrow> Return (discovered e asn)
             (st\<lparr>stdout := stdout st @ discovered e asn,
                 requests := requests st @ [GET (bgpURL @ asn)]\<rparr>))"
    by (rule searchASN_one)
next
  have "\<forall>asn\<in>set (Split flag '',''). CHR '','' \<notin> set asn"
    by (auto dest: Split_pieces)
  then show "\<exists>k\<le>length (Split flag '','').
      stdout (final (asns_loop e (Split flag '','') results st)) =
        stdout st @ concat (map (discovered e) (take k (Split flag '',''))) \<and>
      (\<forall>r st2. asns_loop e (Split flag '','') results st = Return r st2 \<longrightarrow>
         k = length (Split flag '',''))"
    by (rule asns_loop_trace)
qed

theorem trace_prints_each_prefix_once_witness:
  "CHR '','' \<notin> set ''AS64500'' \<and>
   NewRequest demo_env (bgpURL @ ''AS64500'') = None \<and>
   searchASN demo_env ''AS64500'' start =
     Return [''192.0.2.0/24'']
       \<lparr>stdout = [''192.0.2.0/24''], requests = [GET ''https://bgp.he.net/AS64500'']\<rparr> \<and>
   discovered demo_env ''AS64500'' = [''192.0.2.0/24''] \<and>
   Split ''AS64500,AS64501'' '','' = [''AS64500'', ''AS64501''] \<and>
   asns_loop demo_env (Split ''AS64500,AS64501'' '','') [] start =
     Return (net1_index @ [(''host3.example.org'', [''198.51.100.7''])])
       \<lparr>stdout = [''192.0.2.0/24'', ''198.51.100.0/24''],
        requests = [GET ''https://bgp.he.net/AS64500'',
                    GET ''https://www.robtex.com/cidr/192.0.2.0-24'',
                    GET ''https://bgp.he.net/AS64501'',
                    GET ''https://www.robtex.com/cidr/198.51.100.0-24'']\<rparr> \<and>
   stdout (final (asns_loop demo_env (Split ''AS64500,AS64501'' '','') [] start)) =
     concat (map (discovered demo_env) [''AS64500'', ''AS64501''])"
proof -
  have c: "CHR '','' \<notin> set ''AS64500''"
    by simp
  have s: "searchASN demo_env ''AS64500'' start =
     Return [''192.0.2.0/24'']
       \<lparr>stdout = [''192.0.2.0/24''], requests = [GET ''https://bgp.he.net/AS64500'']\<rparr>"
    by code_simp
  have sp: "Split ''AS64500,AS64501'' '','' = [''AS64500'', ''AS64501'']"
    by code_simp
  have l: "asns_loop demo_env (Split ''AS64500,AS64501'' '','') [] start =
     Return (net1_index @ [(''host3.example.org'', [''198.51.100.7''])])
       \<lparr>stdout = [''192.0.2.0/24'', ''198.51.100.0/24''],
        requests = [GET ''https://bgp.he.net/AS64500'',
                    GET ''https://www.robtex.com/cidr/192.0.2.0-24'',
                    GET ''https://bgp.he.net/AS64501'',
                    GET ''https://www.robtex.com/cidr/198.51.100.0-24'']\<rparr>"
    by code_simp
  have a: "NewRequest demo_env (bgpURL @ ''AS64500'') = None"
    by code_simp
  note t = trace_prints_each_prefix_once[of "''AS64500''" demo_env start "''AS64500,AS64501''" "[]"]
  from t c a have "searchASN demo_env ''AS64500'' start =
      Return (discovered demo_env ''AS64500'')
        (start\<lparr>stdout := stdout start @ discovered demo_env ''AS64500'',
               requests := requests start @ [GET (bgpURL @ ''AS64500'')]\<rparr>)"
    by simp
  with s have d: "discovered demo_env ''AS64500'' = [''192.0.2.0/24'']"
    by simp
  from t obtain k where
    "stdout (final (asns_loop demo_env (Split ''AS64500,AS64501'' '','') [] start)) =
       stdout start @ concat (map (discovered demo_env) (take k (Split ''AS64500,AS64501'' '','')))"
    "\<forall>r st2. asns_loop demo_env (Split ''AS64500,AS64501'' '','') [] start = Return r st2 \<longrightarrow>
       k = length (Split ''AS64500,AS64501'' '','')"
    by blast
  with l have "stdout (final (asns_loop demo_env (Split ''AS64500,AS64501'' '','') [] start)) =
     stdout start @ concat (map (discovered demo_env) (Split ''AS64500,AS64501'' '',''))"
    by simp
  then have tr: "stdout (final (asns_loop demo_env (Split ''AS64500,AS64501'' '','') [] start)) =
     concat (map (discovered demo_env) [''AS64500'', ''AS64501''])"
    unfolding sp by (simp add: start_def)
  from c a s d sp l tr show ?thesis by blast
qed

subsection \<open>C10: with both flags, the CIDR list is processed and the ASN list ignored\<close>

text \<open>
  Claim C10. When the \<^verbatim>\<open>--cidr\<close> flag is non-empty, the program does what it does with
  that \<^verbatim>\<open>--cidr\<close> value and no \<^verbatim>\<open>--asn\<close> flag, whatever the \<^verbatim>\<open>--asn\<close> flag is: the same
  output, the same requests, the same end. The \<open>Action\<close> returns no error, and every
  request sent is the lookup of one of the comma-separated CIDR blocks; none goes to the
  ASN lookup service.
\<close>

theorem cidr_flag_takes_priority:
  assumes "cidr_flag c \<noteq> []"
  shows "main e c st = main e (c\<lparr>asn_flag := []\<rparr>) st \<and>
     (\<forall>err st1. Action e c st \<noteq> Return (Some err) st1) \<and>
     (\<exists>rs. requests (final (main e c st)) = requests st @ rs \<and>
        (\<forall>r \<in> set rs. (\<exists>cidr \<in> set (Split (cidr_flag c) '',''). r = GET (cidr_url cidr)) \<and>
                       \<not> prefix bgpURL (URL r)))"
proof (intro conjI)
  show "main e c st = main e (c\<lparr>asn_flag := []\<rparr>) st"
    using assms by (rule main_cidr_first)
  show "\<forall>err st1. Action e c st \<noteq> Return (Some err) st1"
    using assms by (simp add: Action_error)
  from main_cidr_requests[OF assms, of e st]
  obtain rs where rs: "requests (final (main e c st)) = requests st @ rs"
    "set rs \<subseteq> (\<lambda>cidr. GET (cidr_url cidr)) ` set (Split (cidr_flag c) '','')"
    by blast
  have "(\<exists>cidr \<in> set (Split (cidr_flag c) '',''). r = GET (cidr_url cidr)) \<and>
        \<not> prefix bgpURL (URL r)" if "r \<in> set rs" for r
  proof -
    from that rs(2) obtain cidr where "cidr \<in> set (Split (cidr_flag c) '','')"
      "r = GET (cidr_url cidr)" by auto
    then show ?thesis using cidr_url_not_bgp[of cidr] by (auto simp: GET_def)
  qed
  with rs(1) show "\<exists>rs. requests (final (main e c st)) = requests st @ rs \<and>
        (\<forall>r \<in> set rs. (\<exists>cidr \<in> set (Split (cidr_flag c) '',''). r = GET (cidr_url cidr)) \<and>
                       \<not> prefix bgpURL (URL r))"
    by blast
qed

theorem cidr_flag_takes_priority_witness:
  "cidr_flag both_inputs \<noteq> [] \<and>
   main demo_env both_inputs start = main demo_env (both_inputs\<lparr>asn_flag := []\<rparr>) start \<and>
   requests (final (main demo_env both_inputs start)) =
     [GET ''https://www.robtex.com/cidr/198.51.100.0-24'']"
proof -
  have n: "cidr_flag both_inputs \<noteq> []"
    by (simp add: both_inputs_def)
  have r: "requests (final (main demo_env both_inputs start)) =
     [GET ''https://www.robtex.com/cidr/198.51.100.0-24'']"
    by code_simp
  from cidr_flag_takes_priority[OF n, of demo_env start] n r
  show ?thesis by blast
qed

end
